theory Spec2Isabelle
  imports Complex_Main "HOL-Library.Word"
begin

unbundle bit_operations_syntax

section \<open>Python floats as IEEE-754 binary64 bit patterns\<close>

text \<open>
  The fields \<open>a\<close>, \<open>b\<close> and \<open>result\<close> of the calculator are Python \<open>float\<close>s, that is
  C doubles. A double is modelled by its 64 bits: bit 63 is the sign, bits 62..52 the
  biased exponent, bits 51..0 the fraction. Every 64-bit word is a double, and HOL equality
  on the type is identity of the bits, which is finer than Python's \<open>==\<close> (it separates
  the two zeros and equates a NaN with itself).
\<close>

type_synonym float64 = "64 word"

definition sign_bit :: "float64 \<Rightarrow> bool" where
  "sign_bit x = bit x 63"

definition biased_exponent :: "float64 \<Rightarrow> int" where
  "biased_exponent x = uint (take_bit 11 (drop_bit 52 x))"

definition fraction :: "float64 \<Rightarrow> int" where
  "fraction x = uint (take_bit 52 x)"

definition is_nan :: "float64 \<Rightarrow> bool" where
  "is_nan x = (biased_exponent x = 2047 \<and> fraction x \<noteq> 0)"

definition is_inf :: "float64 \<Rightarrow> bool" where
  "is_inf x = (biased_exponent x = 2047 \<and> fraction x = 0)"

definition is_finite :: "float64 \<Rightarrow> bool" where
  "is_finite x = (biased_exponent x < 2047)"

definition is_zero :: "float64 \<Rightarrow> bool" where
  "is_zero x = (biased_exponent x = 0 \<and> fraction x = 0)"

definition pow2 :: "int \<Rightarrow> rat" where
  "pow2 k = (if 0 \<le> k then 2 ^ nat k else 1 / 2 ^ nat (- k))"

text \<open>
  The absolute value of a finite double as an exact rational: subnormals (exponent field 0)
  have no hidden bit and share the exponent of the smallest normal numbers.
\<close>

definition magnitude :: "float64 \<Rightarrow> rat" where
  "magnitude x =
     (if biased_exponent x = 0 then of_int (fraction x) * pow2 (- 1074)
      else of_int (2 ^ 52 + fraction x) * pow2 (biased_exponent x - 1075))"

definition valof :: "float64 \<Rightarrow> rat" where
  "valof x = (if sign_bit x then - magnitude x else magnitude x)"

subsection \<open>Rounding to nearest, ties to even\<close>

fun bit_length :: "int \<Rightarrow> int" where
  "bit_length n = (if n \<le> 0 then 0 else 1 + bit_length (n div 2))"

declare bit_length.simps [simp del]

text \<open>
  \<open>floor_log2 r\<close> is the integer \<open>e\<close> with \<open>2^e \<le> r < 2^(e+1)\<close> for a positive rational:
  the difference of the bit lengths of numerator and denominator is \<open>e\<close> or \<open>e + 1\<close>.
\<close>

definition floor_log2 :: "rat \<Rightarrow> int" where
  "floor_log2 r =
     (let (p, q) = quotient_of r;
          d = bit_length p - bit_length q
      in if pow2 d \<le> r then d else d - 1)"

definition round_half_even :: "rat \<Rightarrow> int" where
  "round_half_even r =
     (let f = \<lfloor>r\<rfloor>; d = r - of_int f
      in if d < 1 / 2 then f else if 1 / 2 < d then f + 1
         else if even f then f else f + 1)"

definition inf_bits :: int where
  "inf_bits = 2047 * 2 ^ 52"

text \<open>
  The low 63 bits of the double nearest to a non-negative rational. With the quantum
  \<open>2^k\<close> of the binade of \<open>r\<close> (never below \<open>2^-1074\<close>) and \<open>n\<close> the number of quanta after
  rounding, the bits are \<open>(k + 1074) * 2^52 + n\<close>: this also covers subnormals, a carry
  into the next binade, and the carry out of the largest binade, which lands on the bits
  of infinity.
\<close>

definition round_magnitude :: "rat \<Rightarrow> int" where
  "round_magnitude r =
     (if r \<le> 0 then 0
      else let k = max (floor_log2 r - 52) (- 1074);
               n = round_half_even (r / pow2 k)
           in min inf_bits ((k + 1074) * 2 ^ 52 + n))"

definition make_float :: "bool \<Rightarrow> int \<Rightarrow> float64" where
  "make_float s m = (if s then push_bit 63 1 else 0) OR word_of_int m"

definition round_rat :: "rat \<Rightarrow> float64" where
  "round_rat r = make_float (r < 0) (round_magnitude \<bar>r\<bar>)"

subsection \<open>Arithmetic and comparison\<close>

text \<open>
  IEEE-754 leaves the sign and payload of a NaN result to the implementation; the model
  returns the canonical quiet NaN wherever the result is a NaN.
\<close>

definition quiet_nan :: float64 where
  "quiet_nan = 0x7FF8000000000000"

definition float_neg :: "float64 \<Rightarrow> float64" where
  "float_neg x = x XOR push_bit 63 1"

definition fadd :: "float64 \<Rightarrow> float64 \<Rightarrow> float64" where
  "fadd x y =
     (if is_nan x \<or> is_nan y then quiet_nan
      else if is_inf x then (if is_inf y \<and> sign_bit x \<noteq> sign_bit y then quiet_nan else x)
      else if is_inf y then y
      else let r = valof x + valof y
           in if r = 0 then make_float (sign_bit x \<and> sign_bit y) 0 else round_rat r)"

definition fsub :: "float64 \<Rightarrow> float64 \<Rightarrow> float64" where
  "fsub x y = fadd x (float_neg y)"

definition fmul :: "float64 \<Rightarrow> float64 \<Rightarrow> float64" where
  "fmul x y =
     (if is_nan x \<or> is_nan y then quiet_nan
      else if is_inf x \<or> is_inf y then
        (if is_zero x \<or> is_zero y then quiet_nan
         else make_float (sign_bit x \<noteq> sign_bit y) inf_bits)
      else make_float (sign_bit x \<noteq> sign_bit y)
             (round_magnitude (magnitude x * magnitude y)))"

definition fdiv :: "float64 \<Rightarrow> float64 \<Rightarrow> float64" where
  "fdiv x y =
     (if is_nan x \<or> is_nan y then quiet_nan
      else if is_inf x then
        (if is_inf y then quiet_nan else make_float (sign_bit x \<noteq> sign_bit y) inf_bits)
      else if is_inf y then make_float (sign_bit x \<noteq> sign_bit y) 0
      else if is_zero y then
        (if is_zero x then quiet_nan else make_float (sign_bit x \<noteq> sign_bit y) inf_bits)
      else make_float (sign_bit x \<noteq> sign_bit y)
             (round_magnitude (magnitude x / magnitude y)))"

text \<open>The comparison \<open>==\<close> of two doubles: a NaN equals nothing, the two zeros are equal.\<close>

definition float_eq :: "float64 \<Rightarrow> float64 \<Rightarrow> bool" where
  "float_eq x y = (\<not> is_nan x \<and> \<not> is_nan y \<and> (x = y \<or> (is_zero x \<and> is_zero y)))"

text \<open>
  Python's \<open>x == n\<close> for a float \<open>x\<close> and an int \<open>n\<close> compares the exact values; a NaN
  or an infinity equals no int.
\<close>

definition float_eq_int :: "float64 \<Rightarrow> int \<Rightarrow> bool" where
  "float_eq_int x n = (is_finite x \<and> valof x = of_int n)"

text \<open>
  \<open>float(n)\<close> for an int \<open>n\<close>: the nearest double, and OverflowError (here \<open>None\<close>) when
  that would be an infinity.
\<close>

definition float_of_int :: "int \<Rightarrow> float64 option" where
  "float_of_int n =
     (let x = round_rat (of_int n) in if is_finite x then Some x else None)"

text \<open>
  What IEEE-754 asks of an operation on finite operands whose exact result is \<open>r\<close>: the
  double delivered is the rounding of \<open>r\<close>, and a zero (of either sign) when \<open>r\<close> is 0.
\<close>

definition correctly_rounded :: "rat \<Rightarrow> float64 \<Rightarrow> bool" where
  "correctly_rounded r z = (if r = 0 then is_zero z else z = round_rat r)"

section \<open>The calculator service\<close>

subsection \<open>Data model\<close>

record CalculationRequest =
  a :: float64
  b :: float64

record CalculationResponse =
  operation :: string
  a :: float64
  b :: float64
  result :: float64

text \<open>
  The exceptions that can leave a handler: the \<open>HTTPException\<close> the code raises with its
  status code and detail, and the \<open>ZeroDivisionError\<close> that Python's \<open>/\<close> raises on floats
  when the divisor equals \<open>0.0\<close>.
\<close>

datatype exn = HTTPException int string | ZeroDivisionError

definition truediv :: "float64 \<Rightarrow> float64 \<Rightarrow> exn + float64" where
  "truediv x y = (if float_eq y 0 then Inl ZeroDivisionError else Inr (fdiv x y))"

subsection \<open>Handlers\<close>

text \<open>
  The functions of \<open>app/main.py\<close>, one definition each. \<open>make_response\<close> is the source's
  \<open>_make_response\<close> and \<open>divide_handler\<close> its \<open>divide\<close>; the other names are the
  source's. Building a \<open>CalculationResponse\<close> from a string and three floats passes the
  model's field validation, so it is the construction of the record.
\<close>

definition make_response :: "string \<Rightarrow> CalculationRequest \<Rightarrow> float64 \<Rightarrow> CalculationResponse" where
  "make_response opn payload r =
     \<lparr>operation = opn, a = CalculationRequest.a payload, b = CalculationRequest.b payload,
      result = r\<rparr>"

definition health :: "unit \<Rightarrow> (string \<times> string) list" where
  "health u = [(''status'', ''ok'')]"

definition add :: "CalculationRequest \<Rightarrow> exn + CalculationResponse" where
  "add payload =
     Inr (make_response ''add'' payload
            (fadd (CalculationRequest.a payload) (CalculationRequest.b payload)))"

definition subtract :: "CalculationRequest \<Rightarrow> exn + CalculationResponse" where
  "subtract payload =
     Inr (make_response ''subtract'' payload
            (fsub (CalculationRequest.a payload) (CalculationRequest.b payload)))"

definition multiply :: "CalculationRequest \<Rightarrow> exn + CalculationResponse" where
  "multiply payload =
     Inr (make_response ''multiply'' payload
            (fmul (CalculationRequest.a payload) (CalculationRequest.b payload)))"

definition divide_handler :: "CalculationRequest \<Rightarrow> exn + CalculationResponse" where
  "divide_handler payload =
     (if float_eq_int (CalculationRequest.b payload) 0
      then Inl (HTTPException 400 ''Cannot divide by zero'')
      else case truediv (CalculationRequest.a payload) (CalculationRequest.b payload) of
             Inl e \<Rightarrow> Inl e
           | Inr q \<Rightarrow> Inr (make_response ''divide'' payload q))"

subsection \<open>What the framework makes of a handler's outcome\<close>

datatype json =
    JNull
  | JBool bool
  | JInt int
  | JFloat float64
  | JString string
  | JArray "json list"
  | JObject "(string \<times> json) list"

record http_response =
  status_code :: int
  content :: json

text \<open>
  Modelled from the spec: the serialisation of a \<open>CalculationResponse\<close> by the web
  framework, which is not part of the repository. The body is the JSON object of the four
  fields of the response model, in the order of their declaration.
\<close>

definition json_of_response :: "CalculationResponse \<Rightarrow> json" where
  "json_of_response r =
     JObject [(''operation'', JString (operation r)), (''a'', JFloat (a r)),
              (''b'', JFloat (b r)), (''result'', JFloat (result r))]"

text \<open>
  Modelled from the spec: the status the framework gives to what a handler does. A normal
  return is a 200 with the serialised response model; an \<open>HTTPException\<close> is answered
  with its own status code and a body whose \<open>detail\<close> field is its detail; any other
  exception that leaves the handler is a 500.
\<close>

fun respond :: "exn + CalculationResponse \<Rightarrow> http_response" where
  "respond (Inr r) = \<lparr>status_code = 200, content = json_of_response r\<rparr>"
| "respond (Inl (HTTPException c d)) =
     \<lparr>status_code = c, content = JObject [(''detail'', JString d)]\<rparr>"
| "respond (Inl ZeroDivisionError) =
     \<lparr>status_code = 500, content = JString ''Internal Server Error''\<rparr>"

text \<open>The calculation routes of the application: the path of each decorator and its handler.\<close>

definition calc_routes :: "(string \<times> (CalculationRequest \<Rightarrow> exn + CalculationResponse)) list" where
  "calc_routes =
     [(''/calc/add'', add), (''/calc/subtract'', subtract),
      (''/calc/multiply'', multiply), (''/calc/divide'', divide_handler)]"

subsection \<open>Requests, validation and routing\<close>

datatype http_method = GET | POST

record http_request =
  verb :: http_method
  path :: string
  body :: json

text \<open>
  Modelled from the spec: the external schema-validation layer that decodes a request body
  into a \<open>CalculationRequest\<close> before a handler runs; its code is not part of the
  repository. The layer is a parameter of the model: \<open>number\<close> is its conversion of a
  JSON value to a float, \<open>None\<close> when the value is not parseable as a number, and
  \<open>errors\<close> is the field-level detail it reports for a rejected body.
\<close>

record schema_layer =
  number :: "json \<Rightarrow> float64 option"
  errors :: "json \<Rightarrow> json"

text \<open>
  Modelled from the spec: decoding into the typed request. The body must be an object
  with both fields \<open>a\<close> and \<open>b\<close>, each parseable as a number; anything else is
  rejected with the layer's detail.
\<close>

definition validate :: "schema_layer \<Rightarrow> json \<Rightarrow> json + CalculationRequest" where
  "validate L j =
     (case j of
        JObject kvs \<Rightarrow>
          (case (map_of kvs ''a'', map_of kvs ''b'') of
             (Some u, Some v) \<Rightarrow>
               (case (number L u, number L v) of
                  (Some x, Some y) \<Rightarrow> Inr \<lparr>CalculationRequest.a = x, b = y\<rparr>
                | _ \<Rightarrow> Inl (errors L j))
           | _ \<Rightarrow> Inl (errors L j))
      | _ \<Rightarrow> Inl (errors L j))"

text \<open>
  Modelled from the spec: a calculation endpoint. A rejected body is answered with a 422
  carrying the validation detail and the handler is not called; otherwise the handler runs
  on the decoded payload.
\<close>

definition calc_endpoint ::
  "schema_layer \<Rightarrow> (CalculationRequest \<Rightarrow> exn + CalculationResponse) \<Rightarrow> json \<Rightarrow> http_response" where
  "calc_endpoint L handler j =
     (case validate L j of
        Inl d \<Rightarrow> \<lparr>status_code = 422, content = JObject [(''detail'', d)]\<rparr>
      | Inr payload \<Rightarrow> respond (handler payload))"

text \<open>
  The application object with the routes its decorators register: \<open>GET /health\<close> and
  the four \<open>POST /calc/...\<close> routes. What the framework answers to a request that
  matches no route of the source is not modelled (\<open>None\<close>).
\<close>

definition app :: "schema_layer \<Rightarrow> http_request \<Rightarrow> http_response option" where
  "app L rq =
     (if verb rq = GET \<and> path rq = ''/health''
      then Some \<lparr>status_code = 200,
                 content = JObject (map (\<lambda>(k, v). (k, JString v)) (health ()))\<rparr>
      else if verb rq = POST
      then map_option (\<lambda>h. calc_endpoint L h (body rq)) (map_of calc_routes (path rq))
      else None)"

text \<open>
  A run of the service on a sequence of requests. No handler reads or assigns a
  module-level variable, so there is no state to pass from one request to the next.
\<close>

fun serve :: "schema_layer \<Rightarrow> http_request list \<Rightarrow> http_response option list" where
  "serve L [] = []"
| "serve L (rq # rqs) = app L rq # serve L rqs"

text \<open>
  A body is malformed when it is not an object in which both \<open>a\<close> and \<open>b\<close> are present
  and parseable as numbers.
\<close>

definition field_ok :: "schema_layer \<Rightarrow> (string \<times> json) list \<Rightarrow> string \<Rightarrow> bool" where
  "field_ok L kvs k = (case map_of kvs k of None \<Rightarrow> False | Some v \<Rightarrow> number L v \<noteq> None)"

definition malformed :: "schema_layer \<Rightarrow> json \<Rightarrow> bool" where
  "malformed L j =
     (case j of
        JObject kvs \<Rightarrow> \<not> (field_ok L kvs ''a'' \<and> field_ok L kvs ''b'')
      | _ \<Rightarrow> True)"

subsection \<open>The module state and a run of the service\<close>

text \<open>
  What outlives a request in \<open>app/main.py\<close> is the module-level object \<open>app\<close>: its title
  and version from line 17 and the routes that the five decorators add to it while the
  module is imported. A route names the view function it was put on.
\<close>

datatype view = HealthView | AddView | SubtractView | MultiplyView | DivideView

record route =
  route_verb :: http_method
  route_path :: string
  endpoint :: view

record module_state =
  app_title :: string
  app_version :: string
  app_routes :: "route list"

text \<open>
  Modelled from the spec: the constructor of the application object and the registration
  that a decorator \<open>@app.get(url)\<close> or \<open>@app.post(url)\<close> performs, both code of the web
  framework. A new application has no route; a decorator appends one.
\<close>

definition FastAPI :: "string \<Rightarrow> string \<Rightarrow> module_state" where
  "FastAPI t v = \<lparr>app_title = t, app_version = v, app_routes = []\<rparr>"

definition register :: "http_method \<Rightarrow> string \<Rightarrow> view \<Rightarrow> module_state \<Rightarrow> module_state" where
  "register m url v g =
     g\<lparr>app_routes := app_routes g @ [\<lparr>route_verb = m, route_path = url, endpoint = v\<rparr>]\<rparr>"

text \<open>The state after the import of the module: line 17, then the decorators in their order.\<close>

definition main_module :: module_state where
  "main_module =
     fold (\<lambda>(m, url, v). register m url v)
       [(GET, ''/health'', HealthView), (POST, ''/calc/add'', AddView),
        (POST, ''/calc/subtract'', SubtractView), (POST, ''/calc/multiply'', MultiplyView),
        (POST, ''/calc/divide'', DivideView)]
       (FastAPI ''Calculator API'' ''0.1.0'')"

text \<open>
  The view functions once more, now as Python runs them: against the module state, which
  a statement may read or assign, and which is handed on with the outcome. \<open>return\<close> and
  \<open>raise\<close> leave the state as it is; the bodies of the five functions consist of nothing
  else, so none of the definitions below changes or consults the state it is given.
\<close>

type_synonym 'a py = "module_state \<Rightarrow> (exn + 'a) \<times> module_state"

definition py_return :: "'a \<Rightarrow> 'a py" where
  "py_return v g = (Inr v, g)"

definition py_raise :: "exn \<Rightarrow> 'a py" where
  "py_raise e g = (Inl e, g)"

definition health_st :: "unit \<Rightarrow> ((string \<times> string) list) py" where
  "health_st u = py_return [(''status'', ''ok'')]"

definition add_st :: "CalculationRequest \<Rightarrow> CalculationResponse py" where
  "add_st payload =
     py_return (make_response ''add'' payload
       (fadd (CalculationRequest.a payload) (CalculationRequest.b payload)))"

definition subtract_st :: "CalculationRequest \<Rightarrow> CalculationResponse py" where
  "subtract_st payload =
     py_return (make_response ''subtract'' payload
       (fsub (CalculationRequest.a payload) (CalculationRequest.b payload)))"

definition multiply_st :: "CalculationRequest \<Rightarrow> CalculationResponse py" where
  "multiply_st payload =
     py_return (make_response ''multiply'' payload
       (fmul (CalculationRequest.a payload) (CalculationRequest.b payload)))"

definition divide_st :: "CalculationRequest \<Rightarrow> CalculationResponse py" where
  "divide_st payload =
     (if float_eq_int (CalculationRequest.b payload) 0
      then py_raise (HTTPException 400 ''Cannot divide by zero'')
      else case truediv (CalculationRequest.a payload) (CalculationRequest.b payload) of
             Inl e \<Rightarrow> py_raise e
           | Inr q \<Rightarrow> py_return (make_response ''divide'' payload q))"

text \<open>
  Modelled from the spec: how the framework serves one request in a given module state.
  A calculation view is called on the decoded payload unless the body is rejected; the
  request goes to the first registered route with its verb and path; the state that the
  view leaves is the state of the next request.
\<close>

definition calc_view ::
  "schema_layer \<Rightarrow> (CalculationRequest \<Rightarrow> CalculationResponse py) \<Rightarrow> json \<Rightarrow>
     module_state \<Rightarrow> http_response \<times> module_state" where
  "calc_view L handler j g =
     (case validate L j of
        Inl d \<Rightarrow> (\<lparr>status_code = 422, content = JObject [(''detail'', d)]\<rparr>, g)
      | Inr payload \<Rightarrow> (case handler payload g of (out, g') \<Rightarrow> (respond out, g')))"

definition run_view ::
  "schema_layer \<Rightarrow> view \<Rightarrow> json \<Rightarrow> module_state \<Rightarrow> http_response \<times> module_state" where
  "run_view L v j g =
     (case v of
        HealthView \<Rightarrow>
          (case health_st () g of
             (Inr d, g') \<Rightarrow>
               (\<lparr>status_code = 200, content = JObject (map (\<lambda>(k, s). (k, JString s)) d)\<rparr>, g')
           | (Inl e, g') \<Rightarrow> (respond (Inl e), g'))
      | AddView \<Rightarrow> calc_view L add_st j g
      | SubtractView \<Rightarrow> calc_view L subtract_st j g
      | MultiplyView \<Rightarrow> calc_view L multiply_st j g
      | DivideView \<Rightarrow> calc_view L divide_st j g)"

definition handle ::
  "schema_layer \<Rightarrow> module_state \<Rightarrow> http_request \<Rightarrow> http_response option \<times> module_state" where
  "handle L g rq =
     (case find (\<lambda>r. route_verb r = verb rq \<and> route_path r = path rq) (app_routes g) of
        None \<Rightarrow> (None, g)
      | Some r \<Rightarrow>
          (case run_view L (endpoint r) (body rq) g of (resp, g') \<Rightarrow> (Some resp, g')))"

text \<open>A run of the service: the requests one after the other, each in the state left by the last.\<close>

fun run ::
  "schema_layer \<Rightarrow> module_state \<Rightarrow> http_request list \<Rightarrow>
     http_response option list \<times> module_state" where
  "run L g [] = ([], g)"
| "run L g (rq # rqs) =
     (case handle L g rq of
        (resp, g') \<Rightarrow> (case run L g' rqs of (resps, g'') \<Rightarrow> (resp # resps, g'')))"

subsection \<open>The tests and their two clients\<close>

text \<open>
  Modelled from the spec: the in-process test client and the async HTTP client over the
  in-process transport, both external libraries. Each hands a POST with a JSON body to the
  application it was built on and returns the application's response.
\<close>

definition testclient_post ::
  "(http_request \<Rightarrow> http_response option) \<Rightarrow> string \<Rightarrow> json \<Rightarrow> http_response option" where
  "testclient_post application url j = application \<lparr>verb = POST, path = url, body = j\<rparr>"

definition httpx_post ::
  "(http_request \<Rightarrow> http_response option) \<Rightarrow> string \<Rightarrow> string \<Rightarrow> json \<Rightarrow> http_response option" where
  "httpx_post application base_url url j = application \<lparr>verb = POST, path = url, body = j\<rparr>"

definition json_get :: "json \<Rightarrow> string \<Rightarrow> json option" where
  "json_get j k = (case j of JObject kvs \<Rightarrow> map_of kvs k | _ \<Rightarrow> None)"

text \<open>Python's \<open>==\<close> between a decoded JSON value and an int or a str literal.\<close>

fun json_eq_int :: "json \<Rightarrow> int \<Rightarrow> bool" where
  "json_eq_int (JInt m) n = (m = n)"
| "json_eq_int (JFloat x) n = float_eq_int x n"
| "json_eq_int (JBool t) n = ((if t then 1 else 0) = n)"
| "json_eq_int _ n = False"

fun json_eq_str :: "json \<Rightarrow> string \<Rightarrow> bool" where
  "json_eq_str (JString s) t = (s = t)"
| "json_eq_str _ t = False"

text \<open>A test passes when both of its assertions hold of the response it received.\<close>

definition test_add_returns_result :: "schema_layer \<Rightarrow> bool" where
  "test_add_returns_result L =
     (case testclient_post (app L) ''/calc/add'' (JObject [(''a'', JInt 2), (''b'', JInt 3)]) of
        None \<Rightarrow> False
      | Some response \<Rightarrow>
          status_code response = 200 \<and>
          (case json_get (content response) ''result'' of
             None \<Rightarrow> False
           | Some v \<Rightarrow> json_eq_int v 5))"

definition test_divide_by_zero_returns_400 :: "schema_layer \<Rightarrow> bool" where
  "test_divide_by_zero_returns_400 L =
     (case testclient_post (app L) ''/calc/divide'' (JObject [(''a'', JInt 2), (''b'', JInt 0)]) of
        None \<Rightarrow> False
      | Some response \<Rightarrow>
          status_code response = 400 \<and>
          (case json_get (content response) ''detail'' of
             None \<Rightarrow> False
           | Some v \<Rightarrow> json_eq_str v ''Cannot divide by zero''))"

definition test_httpx_can_call_add_endpoint :: "schema_layer \<Rightarrow> bool" where
  "test_httpx_can_call_add_endpoint L =
     (case httpx_post (app L) ''http://testserver'' ''/calc/add''
             (JObject [(''a'', JInt 1), (''b'', JInt 4)]) of
        None \<Rightarrow> False
      | Some response \<Rightarrow>
          status_code response = 200 \<and>
          (case json_get (content response) ''result'' of
             None \<Rightarrow> False
           | Some v \<Rightarrow> json_eq_int v 5))"

text \<open>
  A schema layer for running the model on concrete requests: JSON integers are converted
  as Python's \<open>float(n)\<close>, JSON floats are taken as they are, and nothing else is a
  number.
\<close>

definition plain_numbers :: "json \<Rightarrow> float64 option" where
  "plain_numbers j = (case j of JInt n \<Rightarrow> float_of_int n | JFloat x \<Rightarrow> Some x | _ \<Rightarrow> None)"

definition plain_layer :: schema_layer where
  "plain_layer = \<lparr>number = plain_numbers, errors = (\<lambda>j. JArray [])\<rparr>"

definition minus_zero :: float64 where
  "minus_zero = push_bit 63 1"

section \<open>Properties of the float model\<close>

lemma pow2_pos: "0 < pow2 k"
  by (simp add: pow2_def)

lemma fraction_nonneg: "0 \<le> fraction x"
  by (simp add: fraction_def)

lemma magnitude_nonneg: "0 \<le> magnitude x"
  using pow2_pos [of "- 1074"] pow2_pos [of "biased_exponent x - 1075"] fraction_nonneg [of x]
  by (simp add: magnitude_def less_imp_le)

lemma magnitude_eq_0_iff: "magnitude x = 0 \<longleftrightarrow> is_zero x"
proof (cases "biased_exponent x = 0")
  case True
  then show ?thesis
    using pow2_pos [of "- 1074"] by (simp add: magnitude_def is_zero_def)
next
  case False
  have "0 < 2 ^ 52 + fraction x"
    using fraction_nonneg [of x] by (simp add: add_pos_nonneg)
  then have "0 < (of_int (2 ^ 52 + fraction x) :: rat)"
    by (simp only: of_int_0_less_iff)
  then have "0 < magnitude x"
    using False pow2_pos [of "biased_exponent x - 1075"] by (simp add: magnitude_def)
  with False show ?thesis
    by (simp add: is_zero_def)
qed

lemma valof_eq_0_iff: "valof x = 0 \<longleftrightarrow> is_zero x"
  by (simp add: valof_def magnitude_eq_0_iff)

lemma is_zero_finite: "is_zero x \<Longrightarrow> is_finite x"
  by (simp add: is_zero_def is_finite_def)

lemma is_zero_not_nan: "is_zero x \<Longrightarrow> \<not> is_nan x"
  by (simp add: is_zero_def is_nan_def)

lemma is_zero_0: "is_zero 0"
  by (simp add: is_zero_def biased_exponent_def fraction_def)

text \<open>Both zero tests of the program hold exactly on the doubles that are zero.\<close>

lemma float_eq_int_0_iff: "float_eq_int x 0 \<longleftrightarrow> is_zero x"
  using is_zero_finite [of x] by (auto simp add: float_eq_int_def valof_eq_0_iff)

lemma float_eq_0_iff: "float_eq x 0 \<longleftrightarrow> is_zero x"
  using is_zero_not_nan [of x] is_zero_not_nan [of 0] is_zero_0
  by (auto simp add: float_eq_def)

subsection \<open>The zeros are the two bit patterns with 63 low bits clear\<close>

lemma take_bit_eq_0_word: "take_bit k (x :: 64 word) = 0 \<longleftrightarrow> (\<forall>n<k. \<not> bit x n)"
proof -
  have "\<And>n. bit x n \<Longrightarrow> n < 64"
    using bit_imp_le_length [of x] by simp
  then show ?thesis
    by (auto simp add: bit_eq_iff bit_take_bit_iff)
qed

lemma exponent_field_eq_0:
  "take_bit 11 (drop_bit 52 (x :: 64 word)) = 0 \<longleftrightarrow> (\<forall>n<11. \<not> bit x (52 + n))"
  by (simp add: take_bit_eq_0_word bit_drop_bit_eq add.commute)

lemma fields_eq_0:
  "take_bit 11 (drop_bit 52 x) = 0 \<and> take_bit 52 x = 0 \<longleftrightarrow> take_bit 63 (x :: 64 word) = 0"
proof -
  have "(\<forall>n<63. \<not> bit x n) \<longleftrightarrow> (\<forall>n<11. \<not> bit x (52 + n)) \<and> (\<forall>n<52. \<not> bit x n)"
  proof (intro iffI conjI allI impI)
    fix n :: nat
    assume h: "(\<forall>n<11. \<not> bit x (52 + n)) \<and> (\<forall>n<52. \<not> bit x n)" and n: "n < 63"
    show "\<not> bit x n"
    proof (cases "n < 52")
      case True
      with h show ?thesis by simp
    next
      case False
      then have "n - 52 < 11" "52 + (n - 52) = n" using n by simp_all
      with h show ?thesis by metis
    qed
  qed simp_all
  then show ?thesis
    using exponent_field_eq_0 [of x] take_bit_eq_0_word [of 52 x] take_bit_eq_0_word [of 63 x]
    by blast
qed

lemma bit_sign_only: "n < 64 \<Longrightarrow> bit (push_bit 63 1 :: 64 word) n \<longleftrightarrow> n = 63"
  by (simp only: bit_push_bit_iff bit_1_iff) auto

lemma take_bit_63_eq_0_iff: "take_bit 63 (x :: 64 word) = 0 \<longleftrightarrow> x = 0 \<or> x = push_bit 63 1"
proof
  assume "take_bit 63 x = 0"
  then have low: "\<And>n. n < 63 \<Longrightarrow> \<not> bit x n"
    by (simp add: take_bit_eq_0_word)
  show "x = 0 \<or> x = push_bit 63 1"
  proof (cases "bit x 63")
    case False
    have "x = 0"
    proof (rule bit_word_eqI)
      fix n assume "n < LENGTH(64)"
      then have "n < 63 \<or> n = 63" by auto
      with low False show "bit x n \<longleftrightarrow> bit (0 :: 64 word) n" by auto
    qed
    then show ?thesis ..
  next
    case True
    have "x = push_bit 63 1"
    proof (rule bit_word_eqI)
      fix n assume n: "n < LENGTH(64)"
      then have "n < 63 \<or> n = 63" by auto
      with low True have "bit x n \<longleftrightarrow> n = 63" by auto
      with n show "bit x n \<longleftrightarrow> bit (push_bit 63 1 :: 64 word) n"
        by (simp only: bit_sign_only len_bit0 len_num1)
    qed
    then show ?thesis ..
  qed
next
  assume "x = 0 \<or> x = push_bit 63 1"
  then show "take_bit 63 x = 0"
    by auto
qed

lemma is_zero_iff: "is_zero x \<longleftrightarrow> x = 0 \<or> x = minus_zero"
proof -
  have "is_zero x \<longleftrightarrow> take_bit 11 (drop_bit 52 x) = 0 \<and> take_bit 52 x = 0"
    by (simp add: is_zero_def biased_exponent_def fraction_def uint_0_iff)
  then show ?thesis
    by (simp only: fields_eq_0 take_bit_63_eq_0_iff minus_zero_def)
qed

subsection \<open>The binade of a positive rational\<close>

lemma pow2_powi: "pow2 k = 2 powi k"
  by (simp add: pow2_def power_int_def power_one_over inverse_eq_divide)

lemma pow2_add: "pow2 (i + k) = pow2 i * pow2 k"
  by (simp add: pow2_powi power_int_add)

lemma pow2_mono: "i \<le> k \<Longrightarrow> pow2 i \<le> pow2 k"
  by (simp add: pow2_powi power_int_increasing)

lemma pow2_strict_mono: "i < k \<Longrightarrow> pow2 i < pow2 k"
  by (simp add: pow2_powi power_int_strict_increasing)

lemma pow2_nat: "pow2 (int n) = 2 ^ n"
  by (simp add: pow2_def)

lemma bit_length_nonneg: "0 \<le> bit_length n"
  by (induction n rule: bit_length.induct) (simp add: bit_length.simps)

lemma bit_length_bounds:
  "0 < n \<Longrightarrow> 2 ^ nat (bit_length n - 1) \<le> n \<and> n < 2 ^ nat (bit_length n)"
proof (induction n rule: bit_length.induct)
  case (1 n)
  show ?case
  proof (cases "n = 1")
    case True
    then show ?thesis
      by (simp add: bit_length.simps [of 1] bit_length.simps [of 0])
  next
    case False
    with "1.prems" have h: "0 < n div 2" by simp
    with "1.IH" "1.prems" have ih:
      "2 ^ nat (bit_length (n div 2) - 1) \<le> n div 2" "n div 2 < 2 ^ nat (bit_length (n div 2))"
      by simp_all
    have bl: "bit_length n = 1 + bit_length (n div 2)"
      using "1.prems" by (simp add: bit_length.simps [of n])
    have pos: "0 < bit_length (n div 2)"
      using h bit_length_nonneg [of "n div 2 div 2"] by (simp add: bit_length.simps [of "n div 2"])
    then have e1: "nat (bit_length n - 1) = Suc (nat (bit_length (n div 2) - 1))"
      and e2: "nat (bit_length n) = Suc (nat (bit_length (n div 2)))"
      using bl by simp_all
    have d: "\<And>c. c \<le> n div 2 \<Longrightarrow> 2 * c \<le> n" "\<And>c. n div 2 < c \<Longrightarrow> n < 2 * c"
      by arith+
    from d(1) [OF ih(1)] d(2) [OF ih(2)] show ?thesis
      unfolding e1 e2 by simp
  qed
qed


lemma bit_length_pos: "0 < n \<Longrightarrow> 0 < bit_length n"
  using bit_length_nonneg [of "n div 2"] by (simp add: bit_length.simps [of n])

lemma bit_length_bounds_rat:
  assumes "0 < n"
  shows "pow2 (bit_length n - 1) \<le> of_int n" and "of_int n < pow2 (bit_length n)"
proof -
  from bit_length_pos [OF assms] have p: "0 \<le> bit_length n - 1" "0 \<le> bit_length n"
    by simp_all
  from bit_length_bounds [OF assms]
  have "(of_int (2 ^ nat (bit_length n - 1)) :: rat) \<le> of_int n"
    and "(of_int n :: rat) < of_int (2 ^ nat (bit_length n))"
    by (simp_all only: of_int_le_iff of_int_less_iff)
  with p show "pow2 (bit_length n - 1) \<le> of_int n" and "of_int n < pow2 (bit_length n)"
    by (simp_all add: pow2_def)
qed

lemma floor_log2_bounds:
  assumes "0 < r"
  shows "pow2 (floor_log2 r) \<le> r \<and> r < pow2 (floor_log2 r + 1)"
proof -
  obtain p q where pq: "quotient_of r = (p, q)"
    by (cases "quotient_of r")
  then have q: "0 < q" and r: "r = of_int p / of_int q"
    by (simp_all add: quotient_of_denom_pos quotient_of_div)
  with assms have p: "0 < p"
    by (simp add: zero_less_divide_iff)
  define d where "d = bit_length p - bit_length q"
  have qr: "0 < (of_int q :: rat)"
    using q by simp
  have "of_int p < pow2 (bit_length p)"
    by (rule bit_length_bounds_rat [OF p])
  also have "pow2 (bit_length p) = pow2 (d + 1) * pow2 (bit_length q - 1)"
    by (simp add: d_def pow2_add [symmetric])
  also have "\<dots> \<le> pow2 (d + 1) * of_int q"
    using bit_length_bounds_rat(1) [OF q] pow2_pos [of "d + 1"] by simp
  finally have up: "r < pow2 (d + 1)"
    using qr by (simp add: r pos_divide_less_eq)
  have "pow2 (d - 1) * of_int q < pow2 (d - 1) * pow2 (bit_length q)"
    using bit_length_bounds_rat(2) [OF q] pow2_pos [of "d - 1"] by simp
  also have "\<dots> = pow2 (bit_length p - 1)"
    by (simp add: d_def pow2_add [symmetric])
  also have "\<dots> \<le> of_int p"
    by (rule bit_length_bounds_rat [OF p])
  finally have lo: "pow2 (d - 1) < r"
    using qr by (simp add: r pos_less_divide_eq)
  have fl: "floor_log2 r = (if pow2 d \<le> r then d else d - 1)"
    by (simp add: floor_log2_def pq d_def Let_def)
  show ?thesis
    using up lo by (simp add: fl less_imp_le not_le)
qed

lemma pow2_binade_unique:
  assumes "pow2 e \<le> r" "r < pow2 (e + 1)" "pow2 e' \<le> r" "r < pow2 (e' + 1)"
  shows "e = e'"
proof (rule ccontr)
  assume "e \<noteq> e'"
  then consider "e + 1 \<le> e'" | "e' + 1 \<le> e"
    by linarith
  then show False
  proof cases
    case 1
    from pow2_mono [OF this] assms show False by simp
  next
    case 2
    from pow2_mono [OF this] assms show False by simp
  qed
qed

lemma floor_log2_eqI: "pow2 e \<le> r \<Longrightarrow> r < pow2 (e + 1) \<Longrightarrow> floor_log2 r = e"
proof -
  assume a: "pow2 e \<le> r" "r < pow2 (e + 1)"
  then have "0 < r"
    using pow2_pos [of e] by simp
  from floor_log2_bounds [OF this] a show ?thesis
    by (auto intro: pow2_binade_unique)
qed

lemma round_half_even_of_int: "round_half_even (of_int n) = n"
  by (simp add: round_half_even_def)


lemma fraction_less: "fraction x < 2 ^ 52"
proof -
  have "uint (take_bit 52 x) < 2 ^ 52"
    using take_bit_int_less_exp [of 52 "uint x"] by (simp add: unsigned_take_bit_eq)
  then show ?thesis
    by (simp add: fraction_def)
qed

lemma biased_exponent_nonneg: "0 \<le> biased_exponent x"
  by (simp add: biased_exponent_def)

lemma round_magnitude_subnormal:
  assumes e: "biased_exponent x = 0"
  shows "round_magnitude (magnitude x) = fraction x"
proof (cases "fraction x = 0")
  case True
  with e show ?thesis
    by (simp add: magnitude_def round_magnitude_def)
next
  case False
  with fraction_nonneg [of x] have f: "0 < fraction x"
    by simp
  let ?r = "magnitude x"
  have r: "?r = of_int (fraction x) * pow2 (- 1074)"
    using e by (simp add: magnitude_def)
  have pos: "0 < ?r"
    using f pow2_pos [of "- 1074"] by (simp add: r)
  have "of_int (fraction x) < (of_int (2 ^ 52) :: rat)"
    using fraction_less [of x] by (simp only: of_int_less_iff)
  then have "?r < pow2 52 * pow2 (- 1074)"
    using pow2_pos [of "- 1074"] by (simp add: r pow2_def)
  then have lt: "?r < pow2 (- 1022)"
    by (simp add: pow2_add [symmetric])
  have "floor_log2 ?r < - 1022"
  proof (rule ccontr)
    assume "\<not> floor_log2 ?r < - 1022"
    then have "pow2 (- 1022) \<le> pow2 (floor_log2 ?r)"
      by (simp add: pow2_mono)
    with floor_log2_bounds [OF pos] lt show False
      by simp
  qed
  then have k: "max (floor_log2 ?r - 52) (- 1074) = - 1074"
    by simp
  have q: "?r / pow2 (- 1074) = of_int (fraction x)"
    using pow2_pos [of "- 1074"] by (simp add: r)
  have "fraction x \<le> inf_bits"
    using fraction_less [of x] by (simp add: inf_bits_def)
  then show ?thesis
    using pos by (simp add: round_magnitude_def Let_def k q round_half_even_of_int not_le)
qed

lemma round_magnitude_normal:
  assumes e: "0 < biased_exponent x" and fin: "biased_exponent x < 2047"
  shows "round_magnitude (magnitude x) = biased_exponent x * 2 ^ 52 + fraction x"
proof -
  let ?r = "magnitude x" and ?E = "biased_exponent x" and ?m = "2 ^ 52 + fraction x"
  have r: "?r = of_int ?m * pow2 (?E - 1075)"
    using e by (simp add: magnitude_def)
  have "(of_int (2 ^ 52) :: rat) \<le> of_int ?m" and "(of_int ?m :: rat) < of_int (2 ^ 53)"
    using fraction_nonneg [of x] fraction_less [of x] by (simp_all only: of_int_le_iff of_int_less_iff) simp_all
  then have m: "pow2 52 \<le> of_int ?m" "of_int ?m < pow2 53"
    by (simp_all add: pow2_def)
  have "pow2 52 * pow2 (?E - 1075) \<le> ?r" and "?r < pow2 53 * pow2 (?E - 1075)"
    using m pow2_pos [of "?E - 1075"] by (simp_all add: r)
  then have b: "pow2 (?E - 1023) \<le> ?r" "?r < pow2 (?E - 1023 + 1)"
    by (simp_all add: pow2_add [symmetric])
  then have fl: "floor_log2 ?r = ?E - 1023"
    by (rule floor_log2_eqI)
  have pos: "0 < ?r"
    using b(1) pow2_pos [of "?E - 1023"] by simp
  have k: "max (floor_log2 ?r - 52) (- 1074) = ?E - 1075"
    using e by (simp add: fl)
  have "?r / pow2 (?E - 1075) = of_int ?m"
    using pow2_pos [of "?E - 1075"] by (simp add: r)
  then have n: "round_half_even (?r / pow2 (?E - 1075)) = ?m"
    by (simp only: round_half_even_of_int)
  have "?E * 2 ^ 52 + fraction x \<le> inf_bits"
    using fin fraction_less [of x] by (simp add: inf_bits_def)
  then show ?thesis
    using pos by (simp add: round_magnitude_def Let_def k n not_le algebra_simps)
qed

lemma round_magnitude_exact:
  "is_finite x \<Longrightarrow> round_magnitude (magnitude x) = biased_exponent x * 2 ^ 52 + fraction x"
  using round_magnitude_subnormal [of x] round_magnitude_normal [of x] biased_exponent_nonneg [of x]
  by (cases "biased_exponent x = 0") (simp_all add: is_finite_def)

subsection \<open>A double is its sign bit and its two fields\<close>

lemma low_bits_fields:
  "(word_of_int (biased_exponent x * 2 ^ 52 + fraction x) :: 64 word) = take_bit 63 x"
proof -
  have "(word_of_int (biased_exponent x * 2 ^ 52 + fraction x) :: 64 word) =
      push_bit 52 (take_bit 11 (drop_bit 52 x)) + take_bit 52 x"
    by (simp add: biased_exponent_def fraction_def push_bit_eq_mult)
  also have "take_bit 11 (drop_bit 52 x) = drop_bit 52 (take_bit 63 x)"
    by (simp add: drop_bit_take_bit)
  also have "take_bit 52 x = take_bit 52 (take_bit 63 x)"
    by simp
  finally show ?thesis
    by (simp only: bits_ident)
qed

lemma sign_and_low_bits: "(if bit x 63 then push_bit 63 1 else 0) OR take_bit 63 x = (x :: 64 word)"
proof (rule bit_word_eqI)
  fix n assume "n < LENGTH(64)"
  then have n: "n < 64" by simp
  then have c: "n < 63 \<or> n = 63" by auto
  have s: "bit (if bit x 63 then push_bit 63 1 else (0 :: 64 word)) n \<longleftrightarrow> bit x 63 \<and> n = 63"
    using bit_sign_only [OF n] by (cases "bit x 63") (simp_all only: if_True if_False bit_0_eq simp_thms, simp)
  show "bit ((if bit x 63 then push_bit 63 1 else 0) OR take_bit 63 x) n \<longleftrightarrow> bit x n"
    unfolding bit_or_iff s using c by (auto simp add: bit_take_bit_iff)
qed

lemma make_float_fields:
  "make_float (sign_bit x) (biased_exponent x * 2 ^ 52 + fraction x) = x"
  by (simp only: make_float_def sign_bit_def low_bits_fields sign_and_low_bits)

subsection \<open>Rounding and the operations on finite doubles\<close>

lemma is_finite_not_nan_inf: "is_finite x \<Longrightarrow> \<not> is_nan x \<and> \<not> is_inf x"
  by (simp add: is_finite_def is_nan_def is_inf_def)

lemma magnitude_pos: "\<not> is_zero x \<Longrightarrow> 0 < magnitude x"
  using magnitude_nonneg [of x] magnitude_eq_0_iff [of x] by simp

lemma valof_neg_iff: "\<not> is_zero x \<Longrightarrow> valof x < 0 \<longleftrightarrow> sign_bit x"
  using magnitude_pos [of x] by (simp add: valof_def)

lemma abs_valof: "\<bar>valof x\<bar> = magnitude x"
  using magnitude_nonneg [of x] by (simp add: valof_def)

text \<open>Rounding is the identity on the doubles: a finite nonzero double is the rounding of its value.\<close>

lemma round_rat_valof:
  assumes "is_finite x" and "\<not> is_zero x"
  shows "round_rat (valof x) = x"
proof -
  have "round_rat (valof x) = make_float (sign_bit x) (round_magnitude (magnitude x))"
    by (simp only: round_rat_def valof_neg_iff [OF assms(2)] abs_valof)
  also have "\<dots> = x"
    by (simp only: round_magnitude_exact [OF assms(1)] make_float_fields)
  finally show ?thesis .
qed

lemma fadd_finite:
  "is_finite x \<Longrightarrow> is_finite y \<Longrightarrow> valof x + valof y \<noteq> 0 \<Longrightarrow>
     fadd x y = round_rat (valof x + valof y)"
  by (simp add: fadd_def is_finite_not_nan_inf)

lemma fmul_finite:
  assumes "is_finite x" "is_finite y" "valof x * valof y \<noteq> 0"
  shows "fmul x y = round_rat (valof x * valof y)"
proof -
  from assms(3) have nz: "\<not> is_zero x" "\<not> is_zero y"
    by (simp_all add: valof_eq_0_iff)
  then have "valof x * valof y < 0 \<longleftrightarrow> sign_bit x \<noteq> sign_bit y"
    using magnitude_pos [of x] magnitude_pos [of y]
    by (auto simp add: valof_def mult_less_0_iff)
  then show ?thesis
    using assms(1,2) by (simp add: fmul_def round_rat_def is_finite_not_nan_inf abs_mult abs_valof)
qed

lemma fdiv_finite:
  assumes "is_finite x" "is_finite y" "\<not> is_zero x" "\<not> is_zero y"
  shows "fdiv x y = round_rat (valof x / valof y)"
proof -
  have "valof x / valof y < 0 \<longleftrightarrow> sign_bit x \<noteq> sign_bit y"
    using magnitude_pos [OF assms(3)] magnitude_pos [OF assms(4)]
    by (auto simp add: valof_def divide_less_0_iff)
  then show ?thesis
    using assms by (simp add: fdiv_def round_rat_def is_finite_not_nan_inf abs_valof)
qed

lemma float_neg_fields:
  "biased_exponent (float_neg x) = biased_exponent x" "fraction (float_neg x) = fraction x"
  "sign_bit (float_neg x) \<longleftrightarrow> \<not> sign_bit x"
proof -
  have b: "bit (float_neg x) n \<longleftrightarrow> (bit x n \<noteq> (n = 63))" if "n < 64" for n
    using bit_sign_only [OF that] by (simp only: float_neg_def bit_xor_iff)
  have "take_bit 11 (drop_bit 52 (float_neg x)) = take_bit 11 (drop_bit 52 x)"
    by (rule bit_word_eqI) (auto simp add: bit_take_bit_iff bit_drop_bit_eq b)
  then show "biased_exponent (float_neg x) = biased_exponent x"
    by (simp only: biased_exponent_def)
  have "take_bit 52 (float_neg x) = take_bit 52 x"
    by (rule bit_word_eqI) (auto simp add: bit_take_bit_iff b)
  then show "fraction (float_neg x) = fraction x"
    by (simp only: fraction_def)
  show "sign_bit (float_neg x) \<longleftrightarrow> \<not> sign_bit x"
    by (simp add: sign_bit_def b)
qed

lemma valof_float_neg: "valof (float_neg x) = - valof x"
  by (simp add: valof_def magnitude_def float_neg_fields)

lemma is_finite_float_neg: "is_finite (float_neg x) \<longleftrightarrow> is_finite x"
  by (simp add: is_finite_def float_neg_fields)

lemma fsub_finite:
  "is_finite x \<Longrightarrow> is_finite y \<Longrightarrow> valof x - valof y \<noteq> 0 \<Longrightarrow>
     fsub x y = round_rat (valof x - valof y)"
  by (simp add: fsub_def fadd_finite is_finite_float_neg valof_float_neg)

subsection \<open>Rounding is to nearest, ties to even\<close>

lemma round_half_even_cases:
  "round_half_even q = \<lfloor>q\<rfloor> \<and> q - of_int \<lfloor>q\<rfloor> \<le> 1 / 2 \<or>
   round_half_even q = \<lfloor>q\<rfloor> + 1 \<and> 1 / 2 \<le> q - of_int \<lfloor>q\<rfloor>"
  by (auto simp add: round_half_even_def Let_def not_less)

lemma round_half_even_nearest: "\<bar>of_int (round_half_even q) - q\<bar> \<le> \<bar>of_int j - q\<bar>"
proof -
  define f where "f = \<lfloor>q\<rfloor>"
  define d where "d = q - of_int f"
  define c where "c = round_half_even q"
  have d: "0 \<le> d" "d < 1"
    by (simp_all add: d_def f_def) linarith
  have q: "q = of_int f + d"
    by (simp add: d_def)
  have c: "c = f \<and> d \<le> 1 / 2 \<or> c = f + 1 \<and> 1 / 2 \<le> d"
    using round_half_even_cases [of q] by (simp only: c_def f_def d_def)
  consider "j \<le> f" | "f + 1 \<le> j"
    by linarith
  then have "\<bar>of_int c - q\<bar> \<le> \<bar>of_int j - q\<bar>"
  proof cases
    case 1
    then have j: "(of_int j :: rat) \<le> of_int f"
      by (simp only: of_int_le_iff)
    from c show ?thesis
    proof
      assume "c = f \<and> d \<le> 1 / 2"
      then have "(of_int c :: rat) = of_int f" by simp
      with j d show ?thesis unfolding q by linarith
    next
      assume "c = f + 1 \<and> 1 / 2 \<le> d"
      then have "(of_int c :: rat) = of_int f + 1" "1 / 2 \<le> d" by simp_all
      with j d show ?thesis unfolding q by linarith
    qed
  next
    case 2
    then have "(of_int (f + 1) :: rat) \<le> of_int j"
      by (simp only: of_int_le_iff)
    then have j: "(of_int f :: rat) + 1 \<le> of_int j"
      by simp
    from c show ?thesis
    proof
      assume "c = f \<and> d \<le> 1 / 2"
      then have "(of_int c :: rat) = of_int f" "d \<le> 1 / 2" by simp_all
      with j d show ?thesis unfolding q by linarith
    next
      assume "c = f + 1 \<and> 1 / 2 \<le> d"
      then have "(of_int c :: rat) = of_int f + 1" by simp
      with j d show ?thesis unfolding q by linarith
    qed
  qed
  then show ?thesis
    by (simp only: c_def)
qed

lemma round_half_even_ge: "of_int N \<le> q \<Longrightarrow> N \<le> round_half_even q"
proof -
  assume "of_int N \<le> q"
  then have "N \<le> \<lfloor>q\<rfloor>" by (simp add: le_floor_iff)
  with round_half_even_cases [of q] show ?thesis by auto
qed

lemma round_half_even_le: "q \<le> of_int N \<Longrightarrow> round_half_even q \<le> N"
proof -
  assume a: "q \<le> of_int N"
  show ?thesis
  proof (cases "q = of_int N")
    case True
    then show ?thesis by (simp add: round_half_even_of_int)
  next
    case False
    with a have "q < of_int N" by simp
    then have "\<lfloor>q\<rfloor> < N" by (simp add: floor_less_iff)
    with round_half_even_cases [of q] show ?thesis by auto
  qed
qed

lemma biased_exponent_less: "biased_exponent x < 2 ^ 11"
proof -
  have "uint (take_bit 11 (drop_bit 52 x)) < 2 ^ 11"
    using take_bit_int_less_exp [of 11 "uint (drop_bit 52 x)"] by (simp add: unsigned_take_bit_eq)
  then show ?thesis
    by (simp add: biased_exponent_def)
qed

lemma uint_low_bits: "uint (take_bit 63 x) = biased_exponent x * 2 ^ 52 + fraction x"
proof -
  let ?v = "biased_exponent x * 2 ^ 52 + fraction x"
  have "0 \<le> ?v" and "?v < 2 ^ 64"
    using biased_exponent_nonneg [of x] biased_exponent_less [of x] fraction_nonneg [of x]
      fraction_less [of x] by simp_all
  then have "take_bit 64 ?v = ?v"
    by (rule take_bit_int_eq_self)
  moreover have "uint (word_of_int ?v :: 64 word) = take_bit 64 ?v"
    by (simp only: uint_word_of_int_eq) simp
  ultimately have "uint (word_of_int ?v :: 64 word) = ?v"
    by (simp only:)
  then show ?thesis
    by (simp only: low_bits_fields)
qed

lemma take_bit_63_make_float:
  assumes "0 \<le> m" and "m < 2 ^ 63"
  shows "uint (take_bit 63 (make_float s m)) = m"
proof -
  have "take_bit 63 (push_bit 63 1 :: 64 word) = 0"
    by (simp add: take_bit_63_eq_0_iff)
  then have "take_bit 63 (make_float s m) = take_bit 63 (word_of_int m :: 64 word)"
    by (simp add: make_float_def)
  also have "uint (take_bit 63 (word_of_int m :: 64 word)) = take_bit 63 (take_bit 64 m)"
    by (simp only: unsigned_take_bit_eq uint_word_of_int_eq len_bit0 len_num1) simp
  also have "\<dots> = m"
    using assms by (simp add: take_bit_int_eq_self)
  finally show ?thesis .
qed

lemma make_float_decode:
  assumes "0 \<le> m" and "m < 2 ^ 63"
  shows "biased_exponent (make_float s m) * 2 ^ 52 + fraction (make_float s m) = m"
  using take_bit_63_make_float [OF assms, of s] by (simp only: uint_low_bits)

lemma sign_bit_make_float:
  assumes "0 \<le> m" and "m < 2 ^ 63"
  shows "sign_bit (make_float s m) \<longleftrightarrow> s"
proof -
  have "m div 2 ^ 63 = 0"
    using assms by (rule div_pos_pos_trivial)
  then have "\<not> bit m 63"
    by (simp only: bit_iff_odd) simp
  then have "\<not> bit (word_of_int m :: 64 word) 63"
    by (simp only: bit_word_of_int_iff simp_thms)
  moreover have "bit (push_bit 63 1 :: 64 word) 63"
    using bit_sign_only [of 63] by simp
  ultimately show ?thesis
    by (simp add: sign_bit_def make_float_def bit_or_iff del: push_bit_numeral)
qed

lemma pow2_Suc: "pow2 (k + 1) = 2 * pow2 k"
proof -
  have "pow2 1 = 2"
    by (simp add: pow2_def)
  then show ?thesis
    by (simp add: pow2_add)
qed

lemma fields_unique:
  fixes E f E' f' :: int
  assumes "E * 2 ^ 52 + f = E' * 2 ^ 52 + f'" "0 \<le> f" "f < 2 ^ 52" "0 \<le> f'" "f' < 2 ^ 52"
  shows "E = E' \<and> f = f'"
proof -
  have "E = E'"
  proof (rule ccontr)
    assume "E \<noteq> E'"
    then consider "E + 1 \<le> E'" | "E' + 1 \<le> E" by linarith
    then show False
    proof cases
      case 1
      then have "(E + 1) * 2 ^ 52 \<le> E' * 2 ^ 52" by (simp only: mult_right_mono zero_le_numeral zero_le_power)
      with assms show False by (simp add: algebra_simps)
    next
      case 2
      then have "(E' + 1) * 2 ^ 52 \<le> E * 2 ^ 52" by (simp only: mult_right_mono zero_le_numeral zero_le_power)
      with assms show False by (simp add: algebra_simps)
    qed
  qed
  with assms(1) show ?thesis by simp
qed

lemma magnitude_make_float:
  assumes k: "- 1074 \<le> k" and n: "0 \<le> n" "n \<le> 2 ^ 53"
    and shape: "k = - 1074 \<or> 2 ^ 52 \<le> n"
    and lt: "(k + 1074) * 2 ^ 52 + n < inf_bits"
  shows "magnitude (make_float s ((k + 1074) * 2 ^ 52 + n)) = of_int n * pow2 k"
proof -
  let ?m = "(k + 1074) * 2 ^ 52 + n"
  let ?x = "make_float s ?m"
  have m0: "0 \<le> ?m"
    using k n by simp
  have m1: "?m < 2 ^ 63"
    using lt by (simp add: inf_bits_def)
  note dec = make_float_decode [OF m0 m1, of s]
  note fb = fraction_nonneg [of ?x] fraction_less [of ?x]
  consider "n < 2 ^ 52" | "2 ^ 52 \<le> n" "n < 2 ^ 53" | "n = 2 ^ 53"
    using n by linarith
  then show ?thesis
  proof cases
    case 1
    with shape have k': "k = - 1074" by simp
    have "biased_exponent ?x * 2 ^ 52 + fraction ?x = 0 * 2 ^ 52 + n"
      using dec by (simp add: k')
    from fields_unique [OF this fb n(1) 1] show ?thesis
      by (simp add: magnitude_def k')
  next
    case 2
    have "biased_exponent ?x * 2 ^ 52 + fraction ?x = (k + 1075) * 2 ^ 52 + (n - 2 ^ 52)"
      using dec by (simp add: algebra_simps)
    from fields_unique [OF this fb] 2
    have e: "biased_exponent ?x = k + 1075" and f: "fraction ?x = n - 2 ^ 52"
      by simp_all
    have "biased_exponent ?x \<noteq> 0"
      unfolding e using k by linarith
    then have "magnitude ?x = of_int (2 ^ 52 + fraction ?x) * pow2 (biased_exponent ?x - 1075)"
      by (simp add: magnitude_def)
    then show ?thesis
      by (simp only: e f) simp
  next
    case 3
    have "biased_exponent ?x * 2 ^ 52 + fraction ?x = (k + 1076) * 2 ^ 52 + 0"
      using dec by (simp add: 3 algebra_simps)
    from fields_unique [OF this fb]
    have e: "biased_exponent ?x = k + 1076" and f: "fraction ?x = 0"
      by simp_all
    have "biased_exponent ?x \<noteq> 0"
      unfolding e using k by linarith
    then have "magnitude ?x = of_int (2 ^ 52 + fraction ?x) * pow2 (biased_exponent ?x - 1075)"
      by (simp add: magnitude_def)
    also have "\<dots> = of_int (2 ^ 52) * pow2 (k + 1)"
      by (simp only: e f) (simp add: add.commute)
    also have "\<dots> = of_int (2 ^ 53) * pow2 k"
      by (simp add: pow2_Suc)
    finally show ?thesis
      by (simp only: 3)
  qed
qed

lemma magnitude_grid:
  "\<exists>M qz. magnitude z = of_int M * pow2 qz \<and> 0 \<le> M \<and> M < 2 ^ 53 \<and> - 1074 \<le> qz"
proof (cases "biased_exponent z = 0")
  case True
  then have "magnitude z = of_int (fraction z) * pow2 (- 1074)"
    by (simp add: magnitude_def)
  moreover have "0 \<le> fraction z" "fraction z < 2 ^ 53"
    using fraction_nonneg [of z] fraction_less [of z] by simp_all
  ultimately show ?thesis
    by (intro exI [of _ "fraction z"] exI [of _ "- 1074"]) simp
next
  case False
  then have "magnitude z = of_int (2 ^ 52 + fraction z) * pow2 (biased_exponent z - 1075)"
    by (simp add: magnitude_def)
  moreover have "0 \<le> 2 ^ 52 + fraction z" "2 ^ 52 + fraction z < 2 ^ 53"
    using fraction_nonneg [of z] fraction_less [of z] by simp_all
  moreover have "- 1074 \<le> biased_exponent z - 1075"
    using False biased_exponent_nonneg [of z] by simp
  ultimately show ?thesis
    by (intro exI [of _ "2 ^ 52 + fraction z"] exI [of _ "biased_exponent z - 1075"]) simp
qed

lemma quantum_params:
  assumes r: "0 < r"
  defines "k \<equiv> max (floor_log2 r - 52) (- 1074)"
  defines "n \<equiv> round_half_even (r / pow2 k)"
  shows "- 1074 \<le> k" and "0 \<le> n" and "n \<le> 2 ^ 53" and "k = - 1074 \<or> 2 ^ 52 \<le> n"
    and "k = - 1074 \<or> pow2 (k + 52) \<le> r"
proof -
  let ?e = "floor_log2 r"
  note b = floor_log2_bounds [OF r]
  show k: "- 1074 \<le> k"
    by (simp add: k_def)
  have q0: "of_int 0 \<le> r / pow2 k"
    using r pow2_pos [of k] by simp
  then show "0 \<le> n"
    unfolding n_def by (rule round_half_even_ge)
  have up: "r / pow2 k \<le> of_int (2 ^ 53)"
  proof -
    have "?e + 1 \<le> k + 53"
      by (simp add: k_def)
    then have "pow2 (?e + 1) \<le> pow2 (k + 53)"
      by (rule pow2_mono)
    with b have "r \<le> pow2 (k + 53)"
      by simp
    then have "r \<le> pow2 53 * pow2 k"
      by (simp only: pow2_add mult.commute)
    then show ?thesis
      using pow2_pos [of k] by (simp add: pos_divide_le_eq pow2_def)
  qed
  then show "n \<le> 2 ^ 53"
    unfolding n_def by (rule round_half_even_le)
  show "k = - 1074 \<or> 2 ^ 52 \<le> n"
  proof (cases "k = - 1074")
    case False
    then have ke: "k = ?e - 52"
      by (simp add: k_def max_def split: if_splits)
    then have "pow2 52 * pow2 k = pow2 ?e"
      by (simp add: pow2_add [symmetric])
    with b have "pow2 52 * pow2 k \<le> r"
      by simp
    then have "of_int (2 ^ 52) \<le> r / pow2 k"
      using pow2_pos [of k] by (simp add: pos_le_divide_eq pow2_def)
    then have "2 ^ 52 \<le> n"
      unfolding n_def by (rule round_half_even_ge)
    then show ?thesis ..
  qed simp
  show "k = - 1074 \<or> pow2 (k + 52) \<le> r"
  proof (cases "k = - 1074")
    case False
    then have "k + 52 = ?e"
      by (simp add: k_def max_def split: if_splits)
    with b show ?thesis
      by simp
  qed simp
qed

lemma round_magnitude_nearest:
  assumes r: "0 < r" and fin: "round_magnitude r < inf_bits"
  shows "\<bar>magnitude (make_float s (round_magnitude r)) - r\<bar> \<le> \<bar>valof z - r\<bar>"
proof -
  define k where "k = max (floor_log2 r - 52) (- 1074)"
  define n where "n = round_half_even (r / pow2 k)"
  note p = quantum_params [OF r, folded k_def n_def]
  have rm: "round_magnitude r = min inf_bits ((k + 1074) * 2 ^ 52 + n)"
    using r by (simp add: round_magnitude_def Let_def k_def n_def not_le)
  with fin have lt: "(k + 1074) * 2 ^ 52 + n < inf_bits"
    by simp
  with rm have rm': "round_magnitude r = (k + 1074) * 2 ^ 52 + n"
    by simp
  have v: "magnitude (make_float s (round_magnitude r)) = of_int n * pow2 k"
    unfolding rm' by (rule magnitude_make_float [OF p(1) p(2) p(3) p(4) lt])
  have pk: "0 < pow2 k"
    by (rule pow2_pos)
  have grid: "\<bar>of_int n * pow2 k - r\<bar> \<le> \<bar>of_int j * pow2 k - r\<bar>" for j
  proof -
    have "of_int i * pow2 k - r = pow2 k * (of_int i - r / pow2 k)" for i
      using pk by (simp add: algebra_simps)
    then have "\<bar>of_int i * pow2 k - r\<bar> = pow2 k * \<bar>of_int i - r / pow2 k\<bar>" for i
      using pk by (simp add: abs_mult)
    then show ?thesis
      using round_half_even_nearest [of "r / pow2 k" j] pk by (simp add: n_def)
  qed
  show ?thesis
  proof (cases "sign_bit z")
    case True
    have "\<bar>of_int n * pow2 k - r\<bar> \<le> \<bar>of_int 0 * pow2 k - r\<bar>"
      by (rule grid)
    also have "\<dots> \<le> \<bar>valof z - r\<bar>"
      using True magnitude_nonneg [of z] r by (simp add: valof_def)
    finally show ?thesis
      by (simp only: v)
  next
    case False
    then have vz: "valof z = magnitude z"
      by (simp add: valof_def)
    obtain M qz where g: "magnitude z = of_int M * pow2 qz" "0 \<le> M" "M < 2 ^ 53" "- 1074 \<le> qz"
      using magnitude_grid [of z] by blast
    show ?thesis
    proof (cases "k \<le> qz")
      case True
      then have "pow2 qz = pow2 (qz - k) * pow2 k" and "pow2 (qz - k) = 2 ^ nat (qz - k)"
        by (simp_all add: pow2_add [symmetric]) (simp add: pow2_def)
      then have "pow2 qz = of_int (2 ^ nat (qz - k)) * pow2 k"
        by simp
      then have "magnitude z = of_int (M * 2 ^ nat (qz - k)) * pow2 k"
        by (simp only: g(1) of_int_mult mult.assoc)
      with grid [of "M * 2 ^ nat (qz - k)"] show ?thesis
        by (simp only: v vz)
    next
      case False
      with g(4) have kn: "k \<noteq> - 1074" and q: "qz + 53 \<le> k + 52"
        by simp_all
      with p(5) have lo: "pow2 (k + 52) \<le> r"
        by simp
      have "(of_int M :: rat) \<le> of_int (2 ^ 53)"
        using g(3) by (simp only: of_int_le_iff)
      moreover have "pow2 53 = of_int (2 ^ 53)"
        by (simp add: pow2_def)
      ultimately have "of_int M * pow2 qz \<le> pow2 53 * pow2 qz"
        using pow2_pos [of qz] by (simp only: mult_le_cancel_right_pos)
      also have "\<dots> = pow2 (qz + 53)"
        by (simp only: pow2_add mult.commute)
      also have "\<dots> \<le> pow2 (k + 52)"
        using q by (rule pow2_mono)
      finally have mz: "magnitude z \<le> pow2 (k + 52)"
        by (simp only: g(1))
      have "\<bar>of_int n * pow2 k - r\<bar> \<le> \<bar>of_int (2 ^ 52) * pow2 k - r\<bar>"
        by (rule grid)
      also have "of_int (2 ^ 52) * pow2 k = pow2 (k + 52)"
      proof -
        have "pow2 52 = of_int (2 ^ 52)"
          by (simp add: pow2_def)
        then show ?thesis
          by (simp only: pow2_add mult.commute)
      qed
      also have "\<bar>pow2 (k + 52) - r\<bar> \<le> \<bar>magnitude z - r\<bar>"
        using mz lo by simp
      finally show ?thesis
        by (simp only: v vz)
    qed
  qed
qed

lemma round_magnitude_range: "0 \<le> round_magnitude r \<and> round_magnitude r \<le> inf_bits"
proof (cases "0 < r")
  case True
  define k where "k = max (floor_log2 r - 52) (- 1074)"
  define n where "n = round_half_even (r / pow2 k)"
  note p = quantum_params [OF True, folded k_def n_def]
  have "round_magnitude r = min inf_bits ((k + 1074) * 2 ^ 52 + n)"
    using True by (simp add: round_magnitude_def Let_def k_def n_def not_le)
  moreover have "0 \<le> (k + 1074) * 2 ^ 52 + n"
    using p(1) p(2) by simp
  moreover have "0 \<le> inf_bits"
    by (simp add: inf_bits_def)
  ultimately show ?thesis
    by simp
next
  case False
  then show ?thesis
    by (simp add: round_magnitude_def inf_bits_def)
qed

lemma round_rat_fields:
  "biased_exponent (round_rat r) * 2 ^ 52 + fraction (round_rat r) = round_magnitude \<bar>r\<bar>"
  "sign_bit (round_rat r) \<longleftrightarrow> r < 0"
proof -
  have "0 \<le> round_magnitude \<bar>r\<bar>" and "round_magnitude \<bar>r\<bar> < 2 ^ 63"
    using round_magnitude_range [of "\<bar>r\<bar>"] by (simp_all add: inf_bits_def)
  then show "biased_exponent (round_rat r) * 2 ^ 52 + fraction (round_rat r) = round_magnitude \<bar>r\<bar>"
    and "sign_bit (round_rat r) \<longleftrightarrow> r < 0"
    unfolding round_rat_def by (rule make_float_decode, rule sign_bit_make_float)
qed

lemma is_finite_round_rat: "is_finite (round_rat r) \<longleftrightarrow> round_magnitude \<bar>r\<bar> < inf_bits"
proof -
  let ?x = "round_rat r"
  note f = fraction_nonneg [of ?x] fraction_less [of ?x]
  show ?thesis
  proof
    assume "is_finite ?x"
    then have "biased_exponent ?x \<le> 2046"
      by (simp add: is_finite_def)
    then have "biased_exponent ?x * 2 ^ 52 \<le> 2046 * 2 ^ 52"
      by (simp only: mult_right_mono zero_le_numeral zero_le_power)
    with f show "round_magnitude \<bar>r\<bar> < inf_bits"
      by (simp add: round_rat_fields(1) [symmetric] inf_bits_def)
  next
    assume "round_magnitude \<bar>r\<bar> < inf_bits"
    then have lt: "biased_exponent ?x * 2 ^ 52 + fraction ?x < 2047 * 2 ^ 52"
      by (simp only: round_rat_fields(1) inf_bits_def)
    have "biased_exponent ?x < 2047"
    proof (rule ccontr)
      assume "\<not> biased_exponent ?x < 2047"
      then have "2047 * 2 ^ 52 \<le> biased_exponent ?x * 2 ^ 52"
        by (simp only: not_less mult_right_mono zero_le_numeral zero_le_power)
      with lt f show False
        by simp
    qed
    then show "is_finite ?x"
      by (simp add: is_finite_def)
  qed
qed

text \<open>
  Rounding is to nearest: when the rounding of \<open>r\<close> is finite, no double is closer to
  \<open>r\<close> than it.
\<close>

lemma round_rat_nearest:
  assumes "is_finite (round_rat r)"
  shows "\<bar>valof (round_rat r) - r\<bar> \<le> \<bar>valof z - r\<bar>"
proof -
  from assms have fin: "round_magnitude \<bar>r\<bar> < inf_bits"
    by (simp only: is_finite_round_rat)
  consider "r = 0" | "0 < r" | "r < 0"
    by linarith
  then show ?thesis
  proof cases
    case 1
    have "magnitude (round_rat 0) = 0"
      by (simp add: round_rat_def round_magnitude_def make_float_def magnitude_eq_0_iff is_zero_0)
    then show ?thesis
      by (simp add: 1 valof_def)
  next
    case 2
    then have "valof (round_rat r) = magnitude (make_float False (round_magnitude r))"
      by (simp add: valof_def round_rat_fields(2)) (simp add: round_rat_def)
    with round_magnitude_nearest [OF 2, of False z] fin 2 show ?thesis
      by simp
  next
    case 3
    then have p: "0 < - r" and a: "\<bar>r\<bar> = - r"
      by simp_all
    have "valof (round_rat r) = - magnitude (make_float True (round_magnitude (- r)))"
      using 3 by (simp add: valof_def round_rat_fields(2)) (simp add: round_rat_def)
    moreover have "\<bar>magnitude (make_float True (round_magnitude (- r))) - (- r)\<bar>
        \<le> \<bar>valof (float_neg z) - (- r)\<bar>"
      using fin by (intro round_magnitude_nearest [OF p]) (simp only: a)
    ultimately show ?thesis
      by (simp add: valof_float_neg abs_minus_commute)
  qed
qed

lemma round_half_even_tie:
  assumes "\<bar>of_int (round_half_even q) - q\<bar> = \<bar>of_int j - q\<bar>" and "j \<noteq> round_half_even q"
  shows "even (round_half_even q)"
proof -
  define f where "f = \<lfloor>q\<rfloor>"
  define d where "d = q - of_int f"
  define c where "c = round_half_even q"
  have d: "0 \<le> d" "d < 1"
    by (simp_all add: d_def f_def) linarith
  have q: "q = of_int f + d"
    by (simp add: d_def)
  have c: "c = f \<and> d \<le> 1 / 2 \<or> c = f + 1 \<and> 1 / 2 \<le> d"
    using round_half_even_cases [of q] by (simp only: c_def f_def d_def)
  have tie: "\<bar>of_int c - q\<bar> = \<bar>of_int j - q\<bar>" and ne: "j \<noteq> c"
    unfolding c_def by (rule assms)+
  have half: "d = 1 / 2"
  proof -
    consider "j \<le> f - 1" | "j = f" | "j = f + 1" | "f + 2 \<le> j"
      by linarith
    then show ?thesis
    proof cases
      case 1
      then have "(of_int j :: rat) \<le> of_int (f - 1)"
        by (simp only: of_int_le_iff)
      then have j: "(of_int j :: rat) \<le> of_int f - 1"
        by simp
      from c show ?thesis
      proof
        assume "c = f \<and> d \<le> 1 / 2"
        then have "(of_int c :: rat) = of_int f" by simp
        with j d tie show ?thesis unfolding q by linarith
      next
        assume "c = f + 1 \<and> 1 / 2 \<le> d"
        then have "(of_int c :: rat) = of_int f + 1" "1 / 2 \<le> d" by simp_all
        with j d tie show ?thesis unfolding q by linarith
      qed
    next
      case 2
      with ne c have "c = f + 1" "1 / 2 \<le> d" by auto
      then have "(of_int c :: rat) = of_int f + 1" by simp
      with 2 d tie \<open>1 / 2 \<le> d\<close> show ?thesis unfolding q by simp
    next
      case 3
      with ne c have "c = f" "d \<le> 1 / 2" by auto
      moreover from 3 have "(of_int j :: rat) = of_int f + 1" by simp
      ultimately show ?thesis using d tie unfolding q by simp
    next
      case 4
      then have "(of_int (f + 2) :: rat) \<le> of_int j"
        by (simp only: of_int_le_iff)
      then have j: "(of_int f :: rat) + 2 \<le> of_int j"
        by simp
      from c show ?thesis
      proof
        assume "c = f \<and> d \<le> 1 / 2"
        then have "(of_int c :: rat) = of_int f" by simp
        with j d tie show ?thesis unfolding q by linarith
      next
        assume "c = f + 1 \<and> 1 / 2 \<le> d"
        then have "(of_int c :: rat) = of_int f + 1" "1 / 2 \<le> d" by simp_all
        with j d tie show ?thesis unfolding q by linarith
      qed
    qed
  qed
  then have "q - of_int \<lfloor>q\<rfloor> = 1 / 2"
    by (simp only: d_def f_def)
  then show ?thesis
    by (simp add: round_half_even_def Let_def)
qed

lemma round_magnitude_tie:
  assumes r: "0 < r" and fin: "round_magnitude r < inf_bits"
    and tie: "\<bar>magnitude (make_float s (round_magnitude r)) - r\<bar> = \<bar>valof z - r\<bar>"
    and ne: "valof z \<noteq> magnitude (make_float s (round_magnitude r))"
  shows "even (round_magnitude r)"
proof -
  define k where "k = max (floor_log2 r - 52) (- 1074)"
  define n where "n = round_half_even (r / pow2 k)"
  note p = quantum_params [OF r, folded k_def n_def]
  have rm: "round_magnitude r = min inf_bits ((k + 1074) * 2 ^ 52 + n)"
    using r by (simp add: round_magnitude_def Let_def k_def n_def not_le)
  with fin have lt: "(k + 1074) * 2 ^ 52 + n < inf_bits"
    by simp
  with rm have rm': "round_magnitude r = (k + 1074) * 2 ^ 52 + n"
    by simp
  have v: "magnitude (make_float s (round_magnitude r)) = of_int n * pow2 k"
    unfolding rm' by (rule magnitude_make_float [OF p(1) p(2) p(3) p(4) lt])
  have pk: "0 < pow2 k"
    by (rule pow2_pos)
  have scale: "\<bar>of_int i * pow2 k - r\<bar> = pow2 k * \<bar>of_int i - r / pow2 k\<bar>" for i
  proof -
    have "of_int i * pow2 k - r = pow2 k * (of_int i - r / pow2 k)"
      using pk by (simp add: algebra_simps)
    then show ?thesis
      using pk by (simp add: abs_mult)
  qed
  have grid: "\<bar>of_int n * pow2 k - r\<bar> \<le> \<bar>of_int j * pow2 k - r\<bar>" for j
    using round_half_even_nearest [of "r / pow2 k" j] pk by (simp add: scale n_def)
  have on_grid: "even n" if "valof z = of_int j * pow2 k" for j
  proof -
    from tie that have "\<bar>of_int n * pow2 k - r\<bar> = \<bar>of_int j * pow2 k - r\<bar>"
      by (simp only: v)
    then have "\<bar>of_int n - r / pow2 k\<bar> = \<bar>of_int j - r / pow2 k\<bar>"
      using pk by (simp add: scale)
    moreover from ne that have "j \<noteq> n"
      by (auto simp only: v)
    ultimately show ?thesis
      unfolding n_def by (intro round_half_even_tie [of _ j]) simp_all
  qed
  have "even n"
  proof (cases "sign_bit z")
    case True
    then have vz: "valof z = - magnitude z"
      by (simp add: valof_def)
    have "\<bar>of_int n * pow2 k - r\<bar> \<le> \<bar>of_int 0 * pow2 k - r\<bar>"
      by (rule grid)
    with tie r have "magnitude z + r \<le> r"
      using magnitude_nonneg [of z] by (simp add: v vz)
    with magnitude_nonneg [of z] have "valof z = of_int 0 * pow2 k"
      by (simp add: vz)
    then show ?thesis
      by (rule on_grid)
  next
    case False
    then have vz: "valof z = magnitude z"
      by (simp add: valof_def)
    obtain M qz where g: "magnitude z = of_int M * pow2 qz" "0 \<le> M" "M < 2 ^ 53" "- 1074 \<le> qz"
      using magnitude_grid [of z] by blast
    show ?thesis
    proof (cases "k \<le> qz")
      case True
      then have "pow2 qz = pow2 (qz - k) * pow2 k" and "pow2 (qz - k) = 2 ^ nat (qz - k)"
        by (simp_all add: pow2_add [symmetric]) (simp add: pow2_def)
      then have "pow2 qz = of_int (2 ^ nat (qz - k)) * pow2 k"
        by simp
      then have "valof z = of_int (M * 2 ^ nat (qz - k)) * pow2 k"
        by (simp only: vz g(1) of_int_mult mult.assoc)
      then show ?thesis
        by (rule on_grid)
    next
      case False
      with g(4) have kn: "k \<noteq> - 1074" and q: "qz + 53 \<le> k + 52"
        by simp_all
      with p(5) have lo: "pow2 (k + 52) \<le> r"
        by simp
      have "(of_int M :: rat) < of_int (2 ^ 53)"
        using g(3) by (simp only: of_int_less_iff)
      moreover have "pow2 53 = of_int (2 ^ 53)"
        by (simp add: pow2_def)
      ultimately have "of_int M * pow2 qz < pow2 53 * pow2 qz"
        using pow2_pos [of qz] by (simp only: mult_less_cancel_right_pos)
      also have "\<dots> = pow2 (qz + 53)"
        by (simp only: pow2_add mult.commute)
      also have "\<dots> \<le> pow2 (k + 52)"
        using q by (rule pow2_mono)
      finally have mz: "magnitude z < pow2 (k + 52)"
        by (simp only: g(1))
      have "\<bar>of_int n * pow2 k - r\<bar> \<le> \<bar>of_int (2 ^ 52) * pow2 k - r\<bar>"
        by (rule grid)
      also have "of_int (2 ^ 52) * pow2 k = pow2 (k + 52)"
      proof -
        have "pow2 52 = of_int (2 ^ 52)"
          by (simp add: pow2_def)
        then show ?thesis
          by (simp only: pow2_add mult.commute)
      qed
      also have "\<bar>pow2 (k + 52) - r\<bar> < \<bar>magnitude z - r\<bar>"
        using mz lo by simp
      finally have "\<bar>of_int n * pow2 k - r\<bar> < \<bar>valof z - r\<bar>"
        by (simp only: vz)
      with tie show ?thesis
        by (simp only: v)
    qed
  qed
  then show ?thesis
    by (simp add: rm')
qed

lemma round_rat_ties_to_even:
  assumes fin: "is_finite (round_rat r)"
    and tie: "\<bar>valof (round_rat r) - r\<bar> = \<bar>valof z - r\<bar>"
    and ne: "valof z \<noteq> valof (round_rat r)"
  shows "even (fraction (round_rat r))"
proof -
  from fin have lt: "round_magnitude \<bar>r\<bar> < inf_bits"
    by (simp only: is_finite_round_rat)
  have par: "even (fraction (round_rat r)) \<longleftrightarrow> even (round_magnitude \<bar>r\<bar>)"
    by (simp add: round_rat_fields(1) [symmetric])
  consider "r = 0" | "0 < r" | "r < 0"
    by linarith
  then have "even (round_magnitude \<bar>r\<bar>)"
  proof cases
    case 1
    then show ?thesis
      by (simp add: round_magnitude_def)
  next
    case 2
    then have v: "valof (round_rat r) = magnitude (make_float False (round_magnitude r))"
      by (simp add: valof_def round_rat_fields(2)) (simp add: round_rat_def)
    from 2 lt have "round_magnitude r < inf_bits"
      by simp
    from round_magnitude_tie [OF 2 this, of False z] tie ne 2 show ?thesis
      by (simp add: v)
  next
    case 3
    then have p: "0 < - r" and a: "\<bar>r\<bar> = - r"
      by simp_all
    have v: "valof (round_rat r) = - magnitude (make_float True (round_magnitude (- r)))"
      using 3 by (simp add: valof_def round_rat_fields(2)) (simp add: round_rat_def)
    from lt have l: "round_magnitude (- r) < inf_bits"
      by (simp only: a)
    have t: "\<bar>magnitude (make_float True (round_magnitude (- r))) - (- r)\<bar> =
        \<bar>valof (float_neg z) - (- r)\<bar>"
      using tie by (simp add: v valof_float_neg abs_minus_commute)
    have n: "valof (float_neg z) \<noteq> magnitude (make_float True (round_magnitude (- r)))"
      using ne by (simp add: v valof_float_neg) 
    from round_magnitude_tie [OF p l t n] show ?thesis
      by (simp only: a)
  qed
  with par show ?thesis
    by simp
qed

lemma round_magnitude_overflow:
  assumes "pow2 1024 \<le> r"
  shows "round_magnitude r = inf_bits"
proof -
  have r: "0 < r"
    using assms pow2_pos [of 1024] by simp
  define k where "k = max (floor_log2 r - 52) (- 1074)"
  define n where "n = round_half_even (r / pow2 k)"
  note p = quantum_params [OF r, folded k_def n_def]
  have "1024 \<le> floor_log2 r"
  proof (rule ccontr)
    assume "\<not> 1024 \<le> floor_log2 r"
    then have "floor_log2 r + 1 \<le> 1024"
      by simp
    then have "pow2 (floor_log2 r + 1) \<le> pow2 1024"
      by (rule pow2_mono)
    with floor_log2_bounds [OF r] assms show False
      by simp
  qed
  then have k: "972 \<le> k"
    by (simp add: k_def)
  with p(4) have n: "2 ^ 52 \<le> n"
    by simp
  from k have "2046 * 2 ^ 52 \<le> (k + 1074) * 2 ^ 52"
    by simp
  with n have "inf_bits \<le> (k + 1074) * 2 ^ 52 + n"
    by (simp add: inf_bits_def)
  moreover have "round_magnitude r = min inf_bits ((k + 1074) * 2 ^ 52 + n)"
    using r by (simp add: round_magnitude_def Let_def k_def n_def not_le)
  ultimately show ?thesis
    by simp
qed

lemma is_inf_make_float: "is_inf (make_float s inf_bits)"
proof -
  let ?x = "make_float s inf_bits"
  have "biased_exponent ?x * 2 ^ 52 + fraction ?x = 2047 * 2 ^ 52 + 0"
    using make_float_decode [of inf_bits s] by (simp add: inf_bits_def)
  from fields_unique [OF this fraction_nonneg fraction_less] show ?thesis
    by (simp add: is_inf_def)
qed

text \<open>A rational of magnitude \<open>2^1024\<close> or more rounds to an infinity of its sign.\<close>

lemma round_rat_overflow:
  "pow2 1024 \<le> \<bar>r\<bar> \<Longrightarrow> is_inf (round_rat r) \<and> (sign_bit (round_rat r) \<longleftrightarrow> r < 0)"
  by (simp add: round_rat_fields(2)) (simp add: round_rat_def round_magnitude_overflow is_inf_make_float)

subsection \<open>The operations round correctly\<close>

lemma is_zero_make_float_0: "is_zero (make_float s 0)"
  by (simp add: make_float_def is_zero_iff minus_zero_def)

lemma fadd_correctly_rounded:
  "is_finite x \<Longrightarrow> is_finite y \<Longrightarrow> correctly_rounded (valof x + valof y) (fadd x y)"
  by (simp add: correctly_rounded_def fadd_def is_finite_not_nan_inf is_zero_make_float_0)

lemma fsub_correctly_rounded:
  "is_finite x \<Longrightarrow> is_finite y \<Longrightarrow> correctly_rounded (valof x - valof y) (fsub x y)"
  using fadd_correctly_rounded [of x "float_neg y"]
  by (simp add: fsub_def is_finite_float_neg valof_float_neg)

lemma fmul_correctly_rounded:
  assumes "is_finite x" and "is_finite y"
  shows "correctly_rounded (valof x * valof y) (fmul x y)"
proof (cases "valof x * valof y = 0")
  case True
  then have "magnitude x * magnitude y = 0"
    by (auto simp add: valof_eq_0_iff magnitude_eq_0_iff)
  then have "round_magnitude (magnitude x * magnitude y) = 0"
    by (simp only: round_magnitude_def) simp
  with True assms show ?thesis
    by (simp add: correctly_rounded_def fmul_def is_finite_not_nan_inf is_zero_make_float_0)
next
  case False
  with fmul_finite [OF assms False] show ?thesis
    by (simp add: correctly_rounded_def)
qed

lemma fdiv_correctly_rounded:
  assumes "is_finite x" and "is_finite y" and "\<not> is_zero y"
  shows "correctly_rounded (valof x / valof y) (fdiv x y)"
proof (cases "is_zero x")
  case True
  with assms show ?thesis
    by (simp add: correctly_rounded_def fdiv_def is_finite_not_nan_inf valof_eq_0_iff
        magnitude_eq_0_iff [THEN iffD2] round_magnitude_def is_zero_make_float_0)
next
  case False
  with assms have "valof x / valof y \<noteq> 0"
    by (simp add: valof_eq_0_iff)
  with fdiv_finite [OF assms(1,2) False assms(3)] show ?thesis
    by (simp add: correctly_rounded_def)
qed

subsection \<open>Evaluations of the model\<close>

lemma float_of_int_small:
  "float_of_int 0 = Some 0"
  "float_of_int 1 = Some 0x3FF0000000000000"
  "float_of_int 2 = Some 0x4000000000000000"
  "float_of_int 3 = Some 0x4008000000000000"
  "float_of_int 4 = Some 0x4010000000000000"
  "float_of_int 5 = Some 0x4014000000000000"
  by code_simp+

lemma fadd_2_3: "fadd 0x4000000000000000 0x4008000000000000 = 0x4014000000000000"
  by code_simp

lemma fadd_1_4: "fadd 0x3FF0000000000000 0x4010000000000000 = 0x4014000000000000"
  by code_simp

lemma fdiv_1_4: "fdiv 0x3FF0000000000000 0x4010000000000000 = 0x3FD0000000000000"
  by code_simp

lemma fsub_2_3: "fsub 0x4000000000000000 0x4008000000000000 = 0xBFF0000000000000"
  by code_simp

lemma fmul_2_3: "fmul 0x4000000000000000 0x4008000000000000 = 0x4018000000000000"
  by code_simp

lemma two_three_finite: "is_finite 0x4000000000000000" "is_finite 0x4008000000000000"
  by code_simp+

text \<open>
  The usual landmarks of double arithmetic: 0.1 + 0.2 is 0.30000000000000004, 1 / 3 is
  0.3333333333333333, infinity minus infinity is a NaN, the IEEE quotient by a zero is an
  infinity where Python's division raises, and \<open>float(2^53 + 1)\<close> is a tie that goes to
  the even neighbour \<open>2^53\<close>.
\<close>

lemma fadd_tenth_fifth: "fadd 0x3FB999999999999A 0x3FC999999999999A = 0x3FD3333333333334"
  by code_simp

lemma fdiv_1_3: "fdiv 0x3FF0000000000000 0x4008000000000000 = 0x3FD5555555555555"
  by code_simp

lemma fsub_inf_inf: "fsub 0x7FF0000000000000 0x7FF0000000000000 = quiet_nan"
  by code_simp

lemma fdiv_zero_divisor: "fdiv 0x3FF0000000000000 minus_zero = 0xFFF0000000000000"
  by code_simp

lemma truediv_zero_divisor: "truediv 0x3FF0000000000000 minus_zero = Inl ZeroDivisionError"
  by code_simp

lemma float_of_int_tie: "float_of_int (2 ^ 53 + 1) = Some 0x4340000000000000"
  by code_simp

lemma five_eq_5: "float_eq_int 0x4014000000000000 5"
  by code_simp

lemma four_not_zero: "\<not> is_zero 0x4010000000000000"
  by (simp add: is_zero_iff minus_zero_def)

section \<open>Properties of the handlers\<close>

lemma truediv_nonzero: "\<not> is_zero y \<Longrightarrow> truediv x y = Inr (fdiv x y)"
  by (simp add: truediv_def float_eq_0_iff)

lemma divide_handler_zero:
  "is_zero (CalculationRequest.b p) \<Longrightarrow>
     divide_handler p = Inl (HTTPException 400 ''Cannot divide by zero'')"
  by (simp add: divide_handler_def float_eq_int_0_iff)

lemma divide_handler_nonzero:
  "\<not> is_zero (CalculationRequest.b p) \<Longrightarrow>
     divide_handler p =
       Inr (make_response ''divide'' p (fdiv (CalculationRequest.a p) (CalculationRequest.b p)))"
  by (simp add: divide_handler_def float_eq_int_0_iff truediv_nonzero)

lemma divide_1_4:
  "divide_handler \<lparr>CalculationRequest.a = 0x3FF0000000000000, b = 0x4010000000000000\<rparr> =
     Inr \<lparr>operation = ''divide'', a = 0x3FF0000000000000, b = 0x4010000000000000,
          result = 0x3FD0000000000000\<rparr>"
  by (simp add: divide_handler_nonzero four_not_zero fdiv_1_4 make_response_def)

lemma calc_routes_cases:
  "(url, h) \<in> set calc_routes \<longleftrightarrow>
     url = ''/calc/add'' \<and> h = add \<or> url = ''/calc/subtract'' \<and> h = subtract \<or>
     url = ''/calc/multiply'' \<and> h = multiply \<or> url = ''/calc/divide'' \<and> h = divide_handler"
  by (auto simp add: calc_routes_def)

lemma map_of_calc_routes: "(url, h) \<in> set calc_routes \<Longrightarrow> map_of calc_routes url = Some h"
  by (auto simp add: calc_routes_def)

lemma serve_map: "serve L rqs = map (app L) rqs"
  by (induction rqs) simp_all

lemma validate_malformed: "malformed L j \<Longrightarrow> validate L j = Inl (errors L j)"
  by (auto simp add: malformed_def validate_def field_ok_def split: json.splits option.splits)

lemma validate_wellformed: "\<not> malformed L j \<Longrightarrow> \<exists>p. validate L j = Inr p"
  by (auto simp add: malformed_def validate_def field_ok_def split: json.splits option.splits)

lemma post_add:
  assumes "number L u = Some x" and "number L v = Some y"
  shows "app L \<lparr>verb = POST, path = ''/calc/add'', body = JObject [(''a'', u), (''b'', v)]\<rparr> =
     Some \<lparr>status_code = 200,
           content = JObject [(''operation'', JString ''add''), (''a'', JFloat x),
                              (''b'', JFloat y), (''result'', JFloat (fadd x y))]\<rparr>"
  using assms
  by (simp add: app_def calc_routes_def calc_endpoint_def validate_def add_def make_response_def
      json_of_response_def)

text \<open>The third test of the repository, the division of 2 by 0 through the test client, passes.\<close>

lemma divide_by_zero_test_passes:
  "\<forall>n. number L (JInt n) = float_of_int n \<Longrightarrow> test_divide_by_zero_returns_400 L"
  by (simp add: test_divide_by_zero_returns_400_def testclient_post_def app_def calc_routes_def
      calc_endpoint_def validate_def float_of_int_small divide_handler_zero is_zero_0 json_get_def)

lemma plain_layer_ints: "\<forall>n. number plain_layer (JInt n) = float_of_int n"
  by (simp add: plain_layer_def plain_numbers_def)

subsection \<open>The views against the module state\<close>

lemma main_module_routes:
  "app_routes main_module =
     [\<lparr>route_verb = GET, route_path = ''/health'', endpoint = HealthView\<rparr>,
      \<lparr>route_verb = POST, route_path = ''/calc/add'', endpoint = AddView\<rparr>,
      \<lparr>route_verb = POST, route_path = ''/calc/subtract'', endpoint = SubtractView\<rparr>,
      \<lparr>route_verb = POST, route_path = ''/calc/multiply'', endpoint = MultiplyView\<rparr>,
      \<lparr>route_verb = POST, route_path = ''/calc/divide'', endpoint = DivideView\<rparr>]"
  by (simp add: main_module_def register_def FastAPI_def)

text \<open>
  Each view returns the state it was given, and its outcome is the one of the function of
  the same name that takes no state.
\<close>

lemma views_leave_state:
  "health_st u g = (Inr (health u), g)"
  "add_st p g = (add p, g)"
  "subtract_st p g = (subtract p, g)"
  "multiply_st p g = (multiply p, g)"
  "divide_st p g = (divide_handler p, g)"
  by (simp_all add: health_st_def add_st_def subtract_st_def multiply_st_def divide_st_def
      health_def add_def subtract_def multiply_def divide_handler_def py_return_def py_raise_def
      split: sum.splits)

lemma calc_view_pure:
  assumes "\<And>p g. handler p g = (h p, g)"
  shows "calc_view L handler j g = (calc_endpoint L h j, g)"
  by (simp add: calc_view_def calc_endpoint_def assms split: sum.splits)

lemma run_view_state: "snd (run_view L v j g) = g"
  by (cases v) (simp_all add: run_view_def views_leave_state calc_view_pure)

lemma run_view_response: "fst (run_view L v j g) = fst (run_view L v j g')"
  by (cases v) (simp_all add: run_view_def views_leave_state calc_view_pure)

lemma handle_state: "snd (handle L g rq) = g"
proof (cases "find (\<lambda>r. route_verb r = verb rq \<and> route_path r = path rq) (app_routes g)")
  case None
  then show ?thesis
    by (simp add: handle_def)
next
  case (Some r)
  obtain resp g' where v: "run_view L (endpoint r) (body rq) g = (resp, g')"
    by (cases "run_view L (endpoint r) (body rq) g")
  with run_view_state [of L "endpoint r" "body rq" g] have "g' = g"
    by simp
  with Some v show ?thesis
    by (simp add: handle_def)
qed

lemma run_state: "snd (run L g rqs) = g"
proof (induction rqs arbitrary: g)
  case Nil
  show ?case by simp
next
  case (Cons rq rqs)
  obtain resp g' where h: "handle L g rq = (resp, g')"
    by (cases "handle L g rq")
  with handle_state [of L g rq] have "g' = g"
    by simp
  with h Cons.IH [of g] show ?case
    by (auto split: prod.splits)
qed

lemma run_responses: "fst (run L g rqs) = map (\<lambda>rq. fst (handle L g rq)) rqs"
proof (induction rqs)
  case Nil
  show ?case by simp
next
  case (Cons rq rqs)
  obtain resp g' where h: "handle L g rq = (resp, g')"
    by (cases "handle L g rq")
  with handle_state [of L g rq] have "g' = g"
    by simp
  with h Cons.IH show ?case
    by (auto split: prod.splits)
qed

text \<open>On the imported module, serving a request gives the response of \<open>app\<close>.\<close>

lemma handle_main_module: "fst (handle L main_module rq) = app L rq"
  by (cases "verb rq")
    (auto simp add: handle_def main_module_routes run_view_def views_leave_state calc_view_pure
      app_def calc_routes_def split: prod.splits)

section \<open>The claims\<close>

text \<open>
  C1. A divide request whose \<open>b\<close> is not equal to 0 returns normally, which is a 200, and
  its result is the floating-point quotient \<open>a / b\<close>, for finite \<open>a\<close> and \<open>b\<close> the
  exact quotient of the two values rounded to the nearest double; a divide request whose
  \<open>b\<close> equals 0 is answered, for every \<open>a\<close>, with a 400 whose detail is "Cannot divide
  by zero". Equality with 0 is Python's \<open>==\<close>, so a NaN divisor counts as different from 0.
\<close>

theorem divide_contract:
  "(\<not> float_eq_int (CalculationRequest.b p) 0 \<longrightarrow>
      divide_handler p =
        Inr \<lparr>operation = ''divide'', a = CalculationRequest.a p, b = CalculationRequest.b p,
             result = fdiv (CalculationRequest.a p) (CalculationRequest.b p)\<rparr> \<and>
      status_code (respond (divide_handler p)) = 200 \<and>
      json_get (content (respond (divide_handler p))) ''result'' =
        Some (JFloat (fdiv (CalculationRequest.a p) (CalculationRequest.b p))) \<and>
      (is_finite (CalculationRequest.a p) \<and> is_finite (CalculationRequest.b p) \<longrightarrow>
         correctly_rounded (valof (CalculationRequest.a p) / valof (CalculationRequest.b p))
           (fdiv (CalculationRequest.a p) (CalculationRequest.b p)))) \<and>
   (float_eq_int (CalculationRequest.b p) 0 \<longrightarrow>
      divide_handler p = Inl (HTTPException 400 ''Cannot divide by zero'') \<and>
      respond (divide_handler p) =
        \<lparr>status_code = 400, content = JObject [(''detail'', JString ''Cannot divide by zero'')]\<rparr>)"
  by (simp add: float_eq_int_0_iff divide_handler_zero divide_handler_nonzero make_response_def
      json_of_response_def json_get_def fdiv_correctly_rounded)

theorem divide_contract_witness:
  "\<not> float_eq_int 0x4010000000000000 0 \<and>
   divide_handler \<lparr>CalculationRequest.a = 0x3FF0000000000000, b = 0x4010000000000000\<rparr> =
     Inr \<lparr>operation = ''divide'', a = 0x3FF0000000000000, b = 0x4010000000000000,
          result = 0x3FD0000000000000\<rparr> \<and>
   float_eq_int 0 0 \<and>
   respond (divide_handler \<lparr>CalculationRequest.a = 0x3FF0000000000000, b = 0\<rparr>) =
     \<lparr>status_code = 400, content = JObject [(''detail'', JString ''Cannot divide by zero'')]\<rparr>"
  using divide_contract [of "\<lparr>CalculationRequest.a = 0x3FF0000000000000, b = 0x4010000000000000\<rparr>"]
    divide_contract [of "\<lparr>CalculationRequest.a = 0x3FF0000000000000, b = 0\<rparr>"]
  by (simp add: float_eq_int_0_iff four_not_zero is_zero_0 fdiv_1_4)

text \<open>
  C2. Add, subtract and multiply return the double sum, difference and product of \<open>a\<close>
  and \<open>b\<close>; for finite \<open>a\<close> and \<open>b\<close> these are the exact sum, difference and product
  of the two values, rounded to the nearest double with ties to even as IEEE-754 asks.
\<close>

theorem arithmetic_results:
  assumes "is_finite (CalculationRequest.a p)" and "is_finite (CalculationRequest.b p)"
  shows "add p =
       Inr \<lparr>operation = ''add'', a = CalculationRequest.a p, b = CalculationRequest.b p,
            result = fadd (CalculationRequest.a p) (CalculationRequest.b p)\<rparr> \<and>
     subtract p =
       Inr \<lparr>operation = ''subtract'', a = CalculationRequest.a p, b = CalculationRequest.b p,
            result = fsub (CalculationRequest.a p) (CalculationRequest.b p)\<rparr> \<and>
     multiply p =
       Inr \<lparr>operation = ''multiply'', a = CalculationRequest.a p, b = CalculationRequest.b p,
            result = fmul (CalculationRequest.a p) (CalculationRequest.b p)\<rparr> \<and>
     correctly_rounded (valof (CalculationRequest.a p) + valof (CalculationRequest.b p))
       (fadd (CalculationRequest.a p) (CalculationRequest.b p)) \<and>
     correctly_rounded (valof (CalculationRequest.a p) - valof (CalculationRequest.b p))
       (fsub (CalculationRequest.a p) (CalculationRequest.b p)) \<and>
     correctly_rounded (valof (CalculationRequest.a p) * valof (CalculationRequest.b p))
       (fmul (CalculationRequest.a p) (CalculationRequest.b p))"
  using assms
  by (simp add: add_def subtract_def multiply_def make_response_def fadd_correctly_rounded
      fsub_correctly_rounded fmul_correctly_rounded)

theorem arithmetic_results_witness:
  "is_finite 0x4000000000000000 \<and> is_finite 0x4008000000000000 \<and>
   add \<lparr>CalculationRequest.a = 0x4000000000000000, b = 0x4008000000000000\<rparr> =
     Inr \<lparr>operation = ''add'', a = 0x4000000000000000, b = 0x4008000000000000,
          result = 0x4014000000000000\<rparr> \<and>
   subtract \<lparr>CalculationRequest.a = 0x4000000000000000, b = 0x4008000000000000\<rparr> =
     Inr \<lparr>operation = ''subtract'', a = 0x4000000000000000, b = 0x4008000000000000,
          result = 0xBFF0000000000000\<rparr> \<and>
   multiply \<lparr>CalculationRequest.a = 0x4000000000000000, b = 0x4008000000000000\<rparr> =
     Inr \<lparr>operation = ''multiply'', a = 0x4000000000000000, b = 0x4008000000000000,
          result = 0x4018000000000000\<rparr>"
  using arithmetic_results [of "\<lparr>CalculationRequest.a = 0x4000000000000000, b = 0x4008000000000000\<rparr>"]
    two_three_finite
  by (simp add: fadd_2_3 fsub_2_3 fmul_2_3)

text \<open>
  C3. Whenever one of the four operations succeeds, the fields \<open>a\<close> and \<open>b\<close> of its
  response are the \<open>a\<close> and \<open>b\<close> of the request, bit for bit.
\<close>

theorem echo_inputs:
  "(url, h) \<in> set calc_routes \<Longrightarrow> h p = Inr r \<Longrightarrow>
     a r = CalculationRequest.a p \<and> b r = CalculationRequest.b p \<and>
     json_get (content (respond (h p))) ''a'' = Some (JFloat (CalculationRequest.a p)) \<and>
     json_get (content (respond (h p))) ''b'' = Some (JFloat (CalculationRequest.b p))"
  by (auto simp add: calc_routes_cases add_def subtract_def multiply_def make_response_def
      divide_handler_def truediv_def json_of_response_def json_get_def split: if_splits)

theorem echo_inputs_witness:
  "(''/calc/add'', add) \<in> set calc_routes \<and>
   add \<lparr>CalculationRequest.a = 0x4000000000000000, b = 0x4008000000000000\<rparr> =
     Inr \<lparr>operation = ''add'', a = 0x4000000000000000, b = 0x4008000000000000,
          result = 0x4014000000000000\<rparr> \<and>
   json_get (content (respond (add \<lparr>CalculationRequest.a = 0x4000000000000000,
     b = 0x4008000000000000\<rparr>))) ''a'' = Some (JFloat 0x4000000000000000)"
proof -
  let ?p = "\<lparr>CalculationRequest.a = 0x4000000000000000, b = 0x4008000000000000\<rparr>"
  let ?r = "\<lparr>operation = ''add'', a = 0x4000000000000000, b = 0x4008000000000000,
          result = 0x4014000000000000\<rparr>"
  have r: "(''/calc/add'', add) \<in> set calc_routes"
    by (simp add: calc_routes_def)
  have o: "add ?p = Inr ?r"
    by (simp add: add_def make_response_def fadd_2_3)
  from echo_inputs [OF r o] r o show ?thesis
    by simp
qed

text \<open>
  C4. The health operation takes no input and returns the fixed payload with the single
  entry status: ok; the application answers \<open>GET /health\<close> with it and a 200 whatever the
  request carries and whatever requests were served before.
\<close>

theorem health_fixed:
  "health () = [(''status'', ''ok'')] \<and>
   app L \<lparr>verb = GET, path = ''/health'', body = j\<rparr> =
     Some \<lparr>status_code = 200, content = JObject [(''status'', JString ''ok'')]\<rparr> \<and>
   last (serve L (earlier @ [\<lparr>verb = GET, path = ''/health'', body = j\<rparr>])) =
     Some \<lparr>status_code = 200, content = JObject [(''status'', JString ''ok'')]\<rparr>"
  by (simp add: serve_map health_def app_def)

text \<open>
  C5. Whenever the operation of the route \<open>/calc/name\<close> succeeds, \<open>name\<close> is one of add,
  subtract, multiply and divide, and the response is a 200 whose body has exactly four
  fields: the operation name \<open>name\<close>, the two inputs and the result.
\<close>

theorem success_shape:
  "(''/calc/'' @ name, h) \<in> set calc_routes \<Longrightarrow> h p = Inr r \<Longrightarrow>
     name \<in> {''add'', ''subtract'', ''multiply'', ''divide''} \<and>
     operation r = name \<and>
     respond (h p) =
       \<lparr>status_code = 200,
        content = JObject [(''operation'', JString name), (''a'', JFloat (CalculationRequest.a p)),
                           (''b'', JFloat (CalculationRequest.b p)), (''result'', JFloat (result r))]\<rparr>"
  by (auto simp add: calc_routes_cases add_def subtract_def multiply_def make_response_def
      divide_handler_def truediv_def json_of_response_def split: if_splits)

theorem success_shape_witness:
  "(''/calc/'' @ ''divide'', divide_handler) \<in> set calc_routes \<and>
   respond (divide_handler \<lparr>CalculationRequest.a = 0x3FF0000000000000, b = 0x4010000000000000\<rparr>) =
     \<lparr>status_code = 200,
      content = JObject [(''operation'', JString ''divide''), (''a'', JFloat 0x3FF0000000000000),
                         (''b'', JFloat 0x4010000000000000), (''result'', JFloat 0x3FD0000000000000)]\<rparr>"
proof -
  have r: "(''/calc/'' @ ''divide'', divide_handler) \<in> set calc_routes"
    by (simp add: calc_routes_def)
  from success_shape [OF r divide_1_4] r show ?thesis
    by simp
qed

text \<open>
  C6. On every calculation route, a body in which \<open>a\<close> or \<open>b\<close> is missing or not
  parseable as a number is answered with a 422 carrying the validation detail, so not with
  a 500, and the answer is the same whatever the handler of the route would compute: the
  handler is not called.
\<close>

theorem malformed_rejected:
  "(url, h) \<in> set calc_routes \<Longrightarrow> malformed L j \<Longrightarrow>
     app L \<lparr>verb = POST, path = url, body = j\<rparr> =
       Some \<lparr>status_code = 422, content = JObject [(''detail'', errors L j)]\<rparr> \<and>
     (\<forall>g. calc_endpoint L g j =
       \<lparr>status_code = 422, content = JObject [(''detail'', errors L j)]\<rparr>)"
  by (simp add: app_def map_of_calc_routes calc_endpoint_def validate_malformed)

theorem malformed_rejected_witness:
  "(''/calc/add'', add) \<in> set calc_routes \<and>
   malformed plain_layer (JObject [(''a'', JString ''abc''), (''b'', JInt 1)]) \<and>
   app plain_layer \<lparr>verb = POST, path = ''/calc/add'',
       body = JObject [(''a'', JString ''abc''), (''b'', JInt 1)]\<rparr> =
     Some \<lparr>status_code = 422, content = JObject [(''detail'', JArray [])]\<rparr>"
proof -
  have r: "(''/calc/add'', add) \<in> set calc_routes"
    by (simp add: calc_routes_def)
  have m: "malformed plain_layer (JObject [(''a'', JString ''abc''), (''b'', JInt 1)])"
    by (simp add: malformed_def field_ok_def plain_layer_def plain_numbers_def)
  from malformed_rejected [OF r m] r m show ?thesis
    by (simp add: plain_layer_def)
qed

text \<open>
  C7. Serving a request leaves the module state as it found it, whatever the request and
  the state, and what a view answers to a body does not depend on the state it runs in.
  So the state in which a request is served is the one the run started in, and the
  response to a request is the same after any two histories of earlier requests, status
  and body; in the program as imported it is the response that \<open>app\<close> computes from the
  request alone.
\<close>

theorem stateless:
  "snd (handle L g rq) = g \<and>
   fst (run_view L v j g) = fst (run_view L v j g') \<and>
   snd (run L g earlier) = g \<and>
   fst (handle L (snd (run L g earlier)) rq) = fst (handle L (snd (run L g others)) rq) \<and>
   fst (handle L (snd (run L main_module earlier)) rq) = app L rq \<and>
   fst (run L main_module (earlier @ [rq])) = map (app L) earlier @ [app L rq]"
  using run_view_response [of L v j g g']
  by (simp add: handle_state run_state run_responses handle_main_module)

theorem stateless_witness:
  "fst (handle plain_layer
     (snd (run plain_layer main_module [\<lparr>verb = GET, path = ''/health'', body = JNull\<rparr>,
        \<lparr>verb = POST, path = ''/calc/divide'', body = JObject [(''a'', JInt 2), (''b'', JInt 0)]\<rparr>]))
     \<lparr>verb = POST, path = ''/calc/add'', body = JObject [(''a'', JInt 2), (''b'', JInt 3)]\<rparr>) =
   Some \<lparr>status_code = 200,
         content = JObject [(''operation'', JString ''add''), (''a'', JFloat 0x4000000000000000),
                            (''b'', JFloat 0x4008000000000000),
                            (''result'', JFloat 0x4014000000000000)]\<rparr>"
proof -
  have n: "number plain_layer (JInt 2) = Some 0x4000000000000000"
    "number plain_layer (JInt 3) = Some 0x4008000000000000"
    using plain_layer_ints by (simp_all add: float_of_int_small)
  from stateless [of plain_layer main_module
      "\<lparr>verb = POST, path = ''/calc/add'', body = JObject [(''a'', JInt 2), (''b'', JInt 3)]\<rparr>"
      _ _ _ "[\<lparr>verb = GET, path = ''/health'', body = JNull\<rparr>,
        \<lparr>verb = POST, path = ''/calc/divide'', body = JObject [(''a'', JInt 2), (''b'', JInt 0)]\<rparr>]"]
  have "fst (handle plain_layer
     (snd (run plain_layer main_module [\<lparr>verb = GET, path = ''/health'', body = JNull\<rparr>,
        \<lparr>verb = POST, path = ''/calc/divide'', body = JObject [(''a'', JInt 2), (''b'', JInt 0)]\<rparr>]))
     \<lparr>verb = POST, path = ''/calc/add'', body = JObject [(''a'', JInt 2), (''b'', JInt 3)]\<rparr>) =
    app plain_layer
     \<lparr>verb = POST, path = ''/calc/add'', body = JObject [(''a'', JInt 2), (''b'', JInt 3)]\<rparr>"
    by blast
  then show ?thesis
    by (simp only: post_add [OF n] fadd_2_3)
qed

text \<open>
  C8. The two clients of the tests hand the same request to the same application and get
  the same response. For a schema layer that converts JSON integers as Python's
  \<open>float(n)\<close>: add with a = 2 and b = 3 through the test client, and add with a = 1 and
  b = 4 through the async client, are both answered with a 200 whose result is the double
  5.0, and both tests pass.
\<close>

theorem client_styles_agree:
  assumes "\<forall>n. number L (JInt n) = float_of_int n"
  shows "testclient_post (app L) url j = httpx_post (app L) base_url url j \<and>
     testclient_post (app L) ''/calc/add'' (JObject [(''a'', JInt 2), (''b'', JInt 3)]) =
       Some \<lparr>status_code = 200,
             content = JObject [(''operation'', JString ''add''), (''a'', JFloat 0x4000000000000000),
                                (''b'', JFloat 0x4008000000000000),
                                (''result'', JFloat 0x4014000000000000)]\<rparr> \<and>
     httpx_post (app L) ''http://testserver'' ''/calc/add''
         (JObject [(''a'', JInt 1), (''b'', JInt 4)]) =
       Some \<lparr>status_code = 200,
             content = JObject [(''operation'', JString ''add''), (''a'', JFloat 0x3FF0000000000000),
                                (''b'', JFloat 0x4010000000000000),
                                (''result'', JFloat 0x4014000000000000)]\<rparr> \<and>
     float_of_int 5 = Some 0x4014000000000000 \<and>
     test_add_returns_result L \<and> test_httpx_can_call_add_endpoint L"
proof -
  have n: "number L (JInt 1) = Some 0x3FF0000000000000" "number L (JInt 2) = Some 0x4000000000000000"
    "number L (JInt 3) = Some 0x4008000000000000" "number L (JInt 4) = Some 0x4010000000000000"
    using assms by (simp_all add: float_of_int_small)
  have t: "testclient_post (app L) ''/calc/add'' (JObject [(''a'', JInt 2), (''b'', JInt 3)]) =
       Some \<lparr>status_code = 200,
             content = JObject [(''operation'', JString ''add''), (''a'', JFloat 0x4000000000000000),
                                (''b'', JFloat 0x4008000000000000),
                                (''result'', JFloat 0x4014000000000000)]\<rparr>"
    unfolding testclient_post_def by (simp only: post_add [OF n(2) n(3)] fadd_2_3)
  have h: "httpx_post (app L) ''http://testserver'' ''/calc/add''
         (JObject [(''a'', JInt 1), (''b'', JInt 4)]) =
       Some \<lparr>status_code = 200,
             content = JObject [(''operation'', JString ''add''), (''a'', JFloat 0x3FF0000000000000),
                                (''b'', JFloat 0x4010000000000000),
                                (''result'', JFloat 0x4014000000000000)]\<rparr>"
    unfolding httpx_post_def by (simp only: post_add [OF n(1) n(4)] fadd_1_4)
  have p1: "test_add_returns_result L"
    unfolding test_add_returns_result_def by (simp add: t json_get_def five_eq_5)
  have p2: "test_httpx_can_call_add_endpoint L"
    unfolding test_httpx_can_call_add_endpoint_def by (simp add: h json_get_def five_eq_5)
  have e: "testclient_post (app L) url j = httpx_post (app L) base_url url j"
    by (simp add: testclient_post_def httpx_post_def)
  from e t h p1 p2 show ?thesis
    by (simp only: float_of_int_small simp_thms)
qed

theorem client_styles_agree_witness:
  "(\<forall>n. number plain_layer (JInt n) = float_of_int n) \<and>
   testclient_post (app plain_layer) ''/calc/add'' (JObject [(''a'', JInt 2), (''b'', JInt 3)]) =
     httpx_post (app plain_layer) ''http://testserver'' ''/calc/add''
       (JObject [(''a'', JInt 2), (''b'', JInt 3)]) \<and>
   test_add_returns_result plain_layer \<and> test_httpx_can_call_add_endpoint plain_layer"
  using client_styles_agree [OF plain_layer_ints, of "''/calc/add''"
      "JObject [(''a'', JInt 2), (''b'', JInt 3)]" "''http://testserver''"] plain_layer_ints
  by simp

text \<open>
  C9. Negative zero is a double different from positive zero, with the sign bit set and
  the value 0, and it equals 0 under Python's \<open>==\<close>; so a divide request with \<open>b\<close>
  negative zero is answered, for every \<open>a\<close>, with the 400 "Cannot divide by zero".
\<close>

theorem negative_zero_divisor:
  "sign_bit minus_zero \<and> minus_zero \<noteq> 0 \<and> valof minus_zero = 0 \<and>
   float_eq_int minus_zero 0 \<and>
   divide_handler \<lparr>CalculationRequest.a = x, b = minus_zero\<rparr> =
     Inl (HTTPException 400 ''Cannot divide by zero'') \<and>
   respond (divide_handler \<lparr>CalculationRequest.a = x, b = minus_zero\<rparr>) =
     \<lparr>status_code = 400, content = JObject [(''detail'', JString ''Cannot divide by zero'')]\<rparr>"
proof -
  have z: "is_zero minus_zero"
    by (simp add: is_zero_iff)
  have s: "sign_bit minus_zero" and n: "minus_zero \<noteq> 0"
    by (simp_all add: sign_bit_def minus_zero_def)
  from z s n show ?thesis
    by (simp add: valof_eq_0_iff float_eq_int_0_iff divide_handler_zero)
qed

text \<open>
  C10. Python's float division raises ZeroDivisionError exactly when its divisor equals
  0.0. No handler ever lets a ZeroDivisionError out, and whenever the divide operation
  returns a response, the divisor was different from 0.0 and the result is the quotient
  that the division returned: the guard has sent every zero divisor to the error branch
  before the division.
\<close>

theorem no_zero_division:
  "add p \<noteq> Inl ZeroDivisionError \<and> subtract p \<noteq> Inl ZeroDivisionError \<and>
   multiply p \<noteq> Inl ZeroDivisionError \<and> divide_handler p \<noteq> Inl ZeroDivisionError \<and>
   (\<forall>r. divide_handler p = Inr r \<longrightarrow>
      \<not> float_eq (CalculationRequest.b p) 0 \<and>
      truediv (CalculationRequest.a p) (CalculationRequest.b p) = Inr (result r))"
  by (auto simp add: add_def subtract_def multiply_def divide_handler_def truediv_def
      float_eq_int_0_iff float_eq_0_iff make_response_def split: if_splits)

theorem no_zero_division_witness:
  "divide_handler \<lparr>CalculationRequest.a = 0x3FF0000000000000, b = 0x4010000000000000\<rparr> =
     Inr \<lparr>operation = ''divide'', a = 0x3FF0000000000000, b = 0x4010000000000000,
          result = 0x3FD0000000000000\<rparr> \<and>
   \<not> float_eq 0x4010000000000000 0 \<and>
   truediv 0x3FF0000000000000 0x4010000000000000 = Inr 0x3FD0000000000000"
  using no_zero_division [of "\<lparr>CalculationRequest.a = 0x3FF0000000000000, b = 0x4010000000000000\<rparr>"]
    divide_1_4
  by simp

end
